theory Spec2Isabelle
  imports Complex_Main "HOL-Library.AList"
begin

unbundle bit_operations_syntax

section \<open>JavaScript numbers\<close>

text \<open>
  The decoder of \<^verbatim>\<open>src/data-map.ts\<close> computes with JavaScript numbers, which are
  IEEE-754 binary64 values. Every finite double is a rational number, so a finite number
  is a \<^typ>\<open>rat\<close> here, and every arithmetic operation of the source rounds its exact
  result to the nearest double, ties to the even significand (\<open>fl\<close>). The report bytes,
  the bit tests and the loop of \<open>reduceNumberFromTo\<close> stay inside the integers, where
  double arithmetic is exact; they are \<^typ>\<open>int\<close>. Overflow to \<open>Infinity\<close> cannot
  arise from the magnitudes a report produces and is left out; \<open>NaN\<close>, which an absent
  array element produces, is a value of its own.
\<close>

datatype jsnum = Num rat | NaN

function bitlen :: "int \<Rightarrow> int" where
  "bitlen a = (if 0 < a then 1 + bitlen (a div 2) else 0)"
  by pat_completeness auto
termination
  by (relation "measure nat") auto

declare bitlen.simps [simp del]

definition binade :: "rat \<Rightarrow> int" where
  \<comment> \<open>the exponent \<open>e\<close> with \<open>2\<^sup>e \<le> |q| < 2\<^sup>e\<^sup>+\<^sup>1\<close>, for \<open>q \<noteq> 0\<close>\<close>
  "binade q = (let (a, b) = quotient_of \<bar>q\<bar>; d = bitlen a - bitlen b
               in if 2 powi d \<le> \<bar>q\<bar> then d else d - 1)"

definition round_half_even :: "rat \<Rightarrow> int" where
  "round_half_even m = (let f = \<lfloor>m\<rfloor>; d = m - of_int f
     in if d < 1 / 2 then f else if 1 / 2 < d then f + 1
        else if even f then f else f + 1)"

definition fl :: "rat \<Rightarrow> rat" where
  \<comment> \<open>round to nearest binary64: 53 significant bits, least exponent \<open>-1022\<close>\<close>
  "fl q = (if q = 0 then 0 else
     let e = max (binade q) (- 1022); u = 2 powi (e - 52)
     in of_int (round_half_even (q / u)) * u)"

definition fadd :: "rat \<Rightarrow> rat \<Rightarrow> rat" where
  "fadd a b = fl (a + b)"

definition fsub :: "rat \<Rightarrow> rat \<Rightarrow> rat" where
  "fsub a b = fl (a - b)"

definition fmul :: "rat \<Rightarrow> rat \<Rightarrow> rat" where
  "fmul a b = fl (a * b)"

definition fdiv :: "rat \<Rightarrow> rat \<Rightarrow> rat" where
  "fdiv a b = fl (a / b)"

definition Math_round :: "rat \<Rightarrow> rat" where
  \<comment> \<open>the nearest integer, a tie going towards \<open>+\<infinity>\<close>\<close>
  "Math_round x = of_int \<lfloor>x + 1 / 2\<rfloor>"

definition Math_pow10 :: "nat \<Rightarrow> rat" where
  \<comment> \<open>\<open>Math.pow(10, exp)\<close>; the source calls it with \<open>exp = 2\<close> only, where it is exact\<close>
  "Math_pow10 ex = fl (10 ^ ex)"

section \<open>The decoders of \<^verbatim>\<open>src/data-map.ts\<close>\<close>

text \<open>
  \<open>reduceNumberFromTo\<close>: the probe \<open>y\<close> starts at 128 and is halved while it is above 1.
  On the probes the loop reaches (128, 64, ..., 2, 1) the division \<open>y /= 2\<close> is exact, so
  it is integer division here.
\<close>

function reduce_while :: "int \<Rightarrow> int \<Rightarrow> int \<Rightarrow> int" where
  "reduce_while num to y =
     (if 1 < y then
        (if num < to then num
         else reduce_while (if 0 \<le> num - y then num - y else num) to (y div 2))
      else num)"
  by pat_completeness auto
termination
  by (relation "measure (\<lambda>(num, to, y). nat y)") auto

declare reduce_while.simps [simp del]

definition reduceNumberFromTo :: "int \<Rightarrow> int \<Rightarrow> int" where
  "reduceNumberFromTo num to = reduce_while num (to * 2) 128"

text \<open>The same loop with a bound on the number of iterations: \<open>None\<close> when the bound is
  used up before the loop condition fails.\<close>

fun reduce_fuel :: "nat \<Rightarrow> int \<Rightarrow> int \<Rightarrow> int \<Rightarrow> int option" where
  "reduce_fuel 0 num to y = (if 1 < y then None else Some num)"
| "reduce_fuel (Suc n) num to y =
     (if 1 < y then
        (if num < to then Some num
         else reduce_fuel n (if 0 \<le> num - y then num - y else num) to (y div 2))
      else Some num)"

definition round_num :: "rat \<Rightarrow> nat \<Rightarrow> rat" where
  "round_num num ex =
     (let factor = Math_pow10 ex in fdiv (Math_round (fmul num factor)) factor)"

definition wheelDpad :: "int \<Rightarrow> int" where
  "wheelDpad val =
     (let c = reduceNumberFromTo val 8 in
      if c = 8 then 0
      else if c = 7 then 8
      else if c = 6 then 7
      else if c = 5 then 6
      else if c = 4 then 5
      else if c = 3 then 4
      else if c = 2 then 3
      else if c = 1 then 2
      else if c = 0 then 1
      else 0)"

definition elem :: "'a list \<Rightarrow> nat \<Rightarrow> 'a option" where
  \<comment> \<open>\<open>xs[i]\<close>, \<open>None\<close> for \<open>undefined\<close>\<close>
  "elem xs i = (if i < length xs then Some (xs ! i) else None)"

definition wheelTurn :: "int list \<Rightarrow> jsnum" where
  "wheelTurn data =
     (case (elem data 4, elem data 5) of
        (Some d4, Some d5) \<Rightarrow>
          (let wheelFine = fmul (fdiv (of_int d4) 255) (fdiv 100 256);
               wheelCourse = fmul (fdiv (of_int d5) 255) (fsub 100 (fdiv 100 256))
           in Num (min (max (round_num (fadd wheelCourse wheelFine) 2) 0) 100))
      | _ \<Rightarrow> NaN)"

definition pedalToPercent :: "int \<Rightarrow> rat" where
  "pedalToPercent num = round_num (fdiv (of_int \<bar>num - 255\<bar>) 255) 2"

definition shifterGear :: "int \<Rightarrow> int" where
  "shifterGear val =
     (let c = reduceNumberFromTo val 64 in
      if c = 0 then 0
      else if c = 1 then 1
      else if c = 2 then 2
      else if c = 4 then 3
      else if c = 8 then 4
      else if c = 16 then 5
      else if c = 32 then 6
      else if c = 64 then - 1
      else 0)"

section \<open>The change detector of \<^verbatim>\<open>src/data-map.ts\<close>\<close>

text \<open>
  \<open>LogitechG29State\<close> is a JavaScript object from field names to numbers. Its keys are
  enumerated in insertion order (by \<open>for ... in\<close> and by \<open>JSON.stringify\<close>), so it is an
  association list: \<open>AList.update\<close> overwrites a key in place and appends a new one.
\<close>

type_synonym LogitechG29State = "(string \<times> jsnum) list"

definition strict_neq :: "jsnum option \<Rightarrow> jsnum \<Rightarrow> bool" where
  \<comment> \<open>\<open>state[key] !== value\<close>: \<open>undefined\<close> and \<open>NaN\<close> differ from every number\<close>
  "strict_neq old v = (case (old, v) of (Some (Num a), Num b) \<Rightarrow> a \<noteq> b | _ \<Rightarrow> True)"

fun compareState ::
  "LogitechG29State \<Rightarrow> LogitechG29State \<Rightarrow> (string \<times> jsnum) list
    \<Rightarrow> LogitechG29State \<times> LogitechG29State" where
  "compareState state changes [] = (state, changes)"
| "compareState state changes ((key, v) # pairs) =
     (if strict_neq (map_of state key) v
      then compareState (AList.update key v state) (AList.update key v changes) pairs
      else compareState state changes pairs)"

definition flag :: "int \<Rightarrow> int \<Rightarrow> jsnum" where
  \<comment> \<open>\<open>value & mask ? 1 : 0\<close>\<close>
  "flag val m = Num (if val AND m \<noteq> 0 then 1 else 0)"

definition spinner_of :: "int \<Rightarrow> int" where
  "spinner_of value3 = (if value3 AND 2 \<noteq> 0 then 1 else if value3 AND 4 \<noteq> 0 then - 1 else 0)"

text \<open>
  The \<open>pairs\<close> argument that each \<open>case\<close> of the \<open>switch (index)\<close> hands to
  \<open>compareState\<close>; an index without a case (9, 10, 12 and above) compares nothing. The
  switch is entered for \<open>index < data.length\<close> only, so \<open>data[0]\<close> to \<open>data[3]\<close>,
  \<open>data[6]\<close> to \<open>data[8]\<close> and, at index 11, \<open>data[2]\<close> are present where they are read;
  \<open>wheelTurn\<close> reads \<open>data[5]\<close> at index 4, which a report of five bytes lacks.
\<close>

definition pairs_of :: "nat \<Rightarrow> int list \<Rightarrow> (string \<times> jsnum) list" where
  "pairs_of index data =
     (if index = 0 then
        (let value0 = data ! 0 in
         [(''wheel-dpad'', Num (of_int (wheelDpad value0))),
          (''wheel-button_x'', flag value0 16),
          (''wheel-button_square'', flag value0 32),
          (''wheel-button_circle'', flag value0 64),
          (''wheel-button_triangle'', flag value0 128)])
      else if index = 1 then
        (let value1 = data ! 1 in
         [(''wheel-shift_right'', Num (of_int (value1 AND 1))),
          (''wheel-shift_left'', flag value1 2),
          (''wheel-button_r2'', flag value1 4),
          (''wheel-button_l2'', flag value1 8),
          (''wheel-button_share'', flag value1 16),
          (''wheel-button_option'', flag value1 32),
          (''wheel-button_r3'', flag value1 64),
          (''wheel-button_l3'', flag value1 128)])
      else if index = 2 then
        (let value2 = data ! 2 in
         [(''shifter-gear'', Num (of_int (shifterGear value2))),
          (''wheel-button_plus'', flag value2 128)])
      else if index = 3 then
        (let value3 = data ! 3 in
         [(''wheel-spinner'', Num (of_int (spinner_of value3))),
          (''wheel-button_minus'', Num (of_int (value3 AND 1))),
          (''wheel-button_spinner'', flag value3 8),
          (''wheel-button_playstation'', flag value3 16)])
      else if index = 4 \<or> index = 5 then [(''wheel-turn'', wheelTurn data)]
      else if index = 6 then [(''pedals-gas'', Num (pedalToPercent (data ! 6)))]
      else if index = 7 then [(''pedals-brake'', Num (pedalToPercent (data ! 7)))]
      else if index = 8 then [(''pedals-clutch'', Num (pedalToPercent (data ! 8)))]
      else if index = 11 then [(''shifter-gear'', Num (of_int (shifterGear (data ! 2))))]
      else [])"

definition update_index ::
  "int list \<Rightarrow> int list \<Rightarrow> nat \<Rightarrow> LogitechG29State \<times> LogitechG29State
    \<Rightarrow> LogitechG29State \<times> LogitechG29State" where
  \<comment> \<open>one iteration of the \<open>for\<close> loop of \<open>updateState\<close>\<close>
  "update_index data lastData index sc =
     (if elem data index \<noteq> elem lastData index
      then compareState (fst sc) (snd sc) (pairs_of index data)
      else sc)"

definition updateState ::
  "int list \<Rightarrow> int list \<Rightarrow> LogitechG29State \<Rightarrow> LogitechG29State \<times> LogitechG29State" where
  \<comment> \<open>returns the state object, which the source updates in place, and \<open>changes\<close>\<close>
  "updateState data lastData state =
     fold (update_index data lastData) [0..<length data] (state, [])"

section \<open>The class \<open>LogitechG29\<close>\<close>

record LogitechG29Options =
  autocenter :: bool
  debug :: bool
  range' :: int

datatype json = JNumber rat | JNull

datatype payload =
  Value jsnum
  | Changes LogitechG29State
  | Snapshot "(string \<times> json) list"
  | Raw "int list"

text \<open>
  The instance: \<open>device\<close> is \<open>None\<close> while no handle is open and otherwise holds the
  frames handed to \<open>device.write\<close>, oldest first; \<open>emitted\<close> is the sequence of
  \<open>eventEmitter.emit\<close> calls, channel and argument.
\<close>

record LogitechG29 =
  device :: "int list list option"
  emitted :: "(string \<times> payload) list"
  lastData :: "int list"
  lastLedValue :: int
  options :: LogitechG29Options
  prependWrite :: bool
  state :: LogitechG29State

definition constructor :: "LogitechG29Options \<Rightarrow> string \<Rightarrow> LogitechG29" where
  \<comment> \<open>the second argument is \<open>os.platform()\<close>\<close>
  "constructor opts platform =
     \<lparr>device = None, emitted = [], lastData = replicate 12 0, lastLedValue = 0,
      options = opts\<lparr>range' := min (max (range' opts) 40) 900\<rparr>,
      prependWrite = (platform = ''win32''), state = []\<rparr>"

definition g :: "string \<Rightarrow> LogitechG29" where
  \<comment> \<open>the instance that the module creates, on a given platform\<close>
  "g platform = constructor \<lparr>autocenter = False, debug = True, range' = 900\<rparr> platform"

definition relay :: "LogitechG29 \<Rightarrow> int list \<Rightarrow> LogitechG29" where
  "relay inst data =
     (case device inst of
        None \<Rightarrow> inst
      | Some written \<Rightarrow> inst\<lparr>device := Some (written @ [data])\<rparr>)"

definition relayOS :: "LogitechG29 \<Rightarrow> int list \<Rightarrow> LogitechG29" where
  "relayOS inst data = relay inst (if prependWrite inst then 0 # data else data)"

definition leds :: "LogitechG29 \<Rightarrow> int \<Rightarrow> LogitechG29" where
  "leds inst val =
     (if lastLedValue inst = val then inst
      else
        (let val' = min (max val 0) 31 in
         (relayOS inst [0xf8, 0x12, val', 0x00, 0x00, 0x00, 0x01])\<lparr>lastLedValue := val'\<rparr>))"

definition setRange :: "LogitechG29 \<Rightarrow> LogitechG29" where
  "setRange inst =
     (let range1 = range' (options inst) AND 0x00ff;
          range2 = drop_bit 8 (range' (options inst) AND 0xff00)
      in relayOS inst [0xf8, 0x81, range1, range2, 0x00, 0x00, 0x00])"

definition JSON_copy :: "LogitechG29State \<Rightarrow> (string \<times> json) list" where
  \<comment> \<open>\<open>JSON.parse(JSON.stringify(state))\<close>: \<open>NaN\<close> is written as \<open>null\<close>\<close>
  "JSON_copy st = map (\<lambda>(key, v). (key, case v of Num r \<Rightarrow> JNumber r | NaN \<Rightarrow> JNull)) st"

definition on_data :: "LogitechG29 \<Rightarrow> int list \<Rightarrow> LogitechG29" where
  \<comment> \<open>the \<open>'data'\<close> listener that \<open>listen\<close> installs on the device\<close>
  "on_data inst data =
     (let (state', changes) = updateState data (lastData inst) (state inst);
          fired = (if 0 < length changes
                   then map (\<lambda>(key, v). (key, Value v)) changes @ [(''changes'', Changes changes)]
                   else [])
      in inst\<lparr>state := state',
              emitted := emitted inst @ fired
                 @ [(''all'', Snapshot (JSON_copy state')), (''data'', Raw data)],
              lastData := data\<rparr>)"

section \<open>The specification's tables, formulas and ranges\<close>

text \<open>The lookups of the specification, code to value; a code outside a table maps to 0.\<close>

definition dpad_lookup :: "(int \<times> int) list" where
  "dpad_lookup = [(8, 0), (7, 8), (6, 7), (5, 6), (4, 5), (3, 4), (2, 3), (1, 2), (0, 1)]"

definition gear_lookup :: "(int \<times> int) list" where
  "gear_lookup = [(0, 0), (1, 1), (2, 2), (4, 3), (8, 4), (16, 5), (32, 6), (64, - 1)]"

definition lookup_code :: "(int \<times> int) list \<Rightarrow> int \<Rightarrow> int" where
  "lookup_code table c = (case map_of table c of Some v \<Rightarrow> v | None \<Rightarrow> 0)"

text \<open>
  The formula of the specification for the wheel turn, in ordinary arithmetic:
  \<open>fine = (byte4/255) \<times> (100/256)\<close>, \<open>coarse = (byte5/255) \<times> (100 - 100/256)\<close> and
  \<open>turn = clamp(round(coarse + fine, 2 decimals), 0, 100)\<close>, a half rounding up as
  \<open>Math.round\<close> does.
\<close>

definition fine_spec :: "int \<Rightarrow> rat" where
  "fine_spec byte4 = (of_int byte4 / 255) * (100 / 256)"

definition coarse_spec :: "int \<Rightarrow> rat" where
  "coarse_spec byte5 = (of_int byte5 / 255) * (100 - 100 / 256)"

definition round_decimals2 :: "rat \<Rightarrow> rat" where
  "round_decimals2 x = of_int \<lfloor>x * 100 + 1 / 2\<rfloor> / 100"

definition clamp_spec :: "rat \<Rightarrow> rat \<Rightarrow> rat \<Rightarrow> rat" where
  "clamp_spec x lo hi = (if x < lo then lo else if hi < x then hi else x)"

definition turn_spec :: "int \<Rightarrow> int \<Rightarrow> rat" where
  "turn_spec byte4 byte5 =
     clamp_spec (round_decimals2 (coarse_spec byte5 + fine_spec byte4)) 0 100"

text \<open>
  The pairs (byte 4, byte 5) at which \<open>(coarse + fine) \<times> 100\<close> is exactly halfway between
  two integers and the program's sum of doubles falls below it.
\<close>

definition low_ties :: "(int \<times> int) list" where
  "low_ties = [(153, 81), (51, 139), (51, 155)]"

text \<open>
  The formula of the specification for a pedal, \<open>percent = round(|byte - 255| / 255, 2)\<close>:
  \<open>pedal_spec\<close> with every operation being the operation of the program's numbers,
  \<open>pedal_exact\<close> in ordinary arithmetic.
\<close>

definition round2_spec :: "rat \<Rightarrow> rat" where
  "round2_spec x = fdiv (of_int \<lfloor>fmul x 100 + 1 / 2\<rfloor>) 100"

definition pedal_spec :: "int \<Rightarrow> rat" where
  "pedal_spec byte = round2_spec (fdiv (of_int \<bar>byte - 255\<bar>) 255)"

definition pedal_exact :: "int \<Rightarrow> rat" where
  "pedal_exact byte = round_decimals2 (of_int \<bar>byte - 255\<bar> / 255)"

text \<open>The documented range of every field, and a state whose fields all respect it.\<close>

definition boolean_fields :: "string list" where
  "boolean_fields =
     [''wheel-button_x'', ''wheel-button_square'', ''wheel-button_circle'',
      ''wheel-button_triangle'', ''wheel-shift_right'', ''wheel-shift_left'',
      ''wheel-button_r2'', ''wheel-button_l2'', ''wheel-button_share'',
      ''wheel-button_option'', ''wheel-button_r3'', ''wheel-button_l3'',
      ''wheel-button_plus'', ''wheel-button_minus'', ''wheel-button_spinner'',
      ''wheel-button_playstation'']"

definition int_between :: "int \<Rightarrow> int \<Rightarrow> rat \<Rightarrow> bool" where
  \<comment> \<open>an integer from \<open>a\<close> to \<open>b\<close>\<close>
  "int_between a b x = (x \<in> set (map of_int [a..b]))"

definition in_range :: "string \<Rightarrow> jsnum \<Rightarrow> bool" where
  "in_range key v =
     (case v of
        NaN \<Rightarrow> False
      | Num x \<Rightarrow>
          if key = ''wheel-dpad'' then int_between 0 8 x
          else if key = ''shifter-gear'' then int_between (- 1) 6 x
          else if key = ''wheel-turn'' then 0 \<le> x \<and> x \<le> 100
          else if key \<in> set [''pedals-gas'', ''pedals-brake'', ''pedals-clutch'']
            then 0 \<le> x \<and> x \<le> 1
          else if key = ''wheel-spinner'' then int_between (- 1) 1 x
          else if key \<in> set boolean_fields then int_between 0 1 x
          else False)"

definition close_to :: "jsnum \<Rightarrow> rat \<Rightarrow> rat \<Rightarrow> bool" where
  \<comment> \<open>a number at most \<open>tol\<close> away from \<open>target\<close>\<close>
  "close_to v target tol = (case v of NaN \<Rightarrow> False | Num t \<Rightarrow> (\<bar>t - target\<bar> \<le> tol))"

definition state_ok :: "LogitechG29State \<Rightarrow> bool" where
  "state_ok st = list_all (\<lambda>(key, v). in_range key v) st"

definition report_ok :: "int list \<Rightarrow> bool" where
  \<comment> \<open>an input report: 12 bytes\<close>
  "report_ok data = (length data = 12 \<and> list_all (\<lambda>b. 0 \<le> b \<and> b \<le> 255) data)"

text \<open>
  Between two reports, a pedal is either not yet stored or stored with the value of its
  byte in the report before.
\<close>

definition pedals_follow :: "LogitechG29 \<Rightarrow> bool" where
  "pedals_follow inst \<longleftrightarrow>
     (\<forall>(key, j)\<in>set [(''pedals-gas'', 6), (''pedals-brake'', 7), (''pedals-clutch'', 8)].
        map_of (state inst) key = None
        \<or> map_of (state inst) key = Some (Num (pedalToPercent (lastData inst ! j))))"

section \<open>Termination of the bitfield recovery\<close>

lemma reduce_fuel_enough:
  "y \<le> 2 ^ n \<Longrightarrow> reduce_fuel n num to y = Some (reduce_while num to y)"
proof (induction n arbitrary: num y)
  case 0
  then show ?case
    by (simp add: reduce_while.simps [of num to y])
next
  case (Suc n)
  have half: "y div 2 \<le> 2 ^ n"
    using Suc.prems by simp
  show ?case
    using Suc.IH [OF half] by (simp add: reduce_while.simps [of num to y])
qed

text \<open>
  C10. \<open>reduceNumberFromTo\<close> returns a result for every number and every threshold: the
  loop is a total function (its termination is proved from the probe alone), and at most
  seven iterations are run, the probe going 128, 64, 32, 16, 8, 4, 2 before it reaches 1.
  The decoders of dpad and gear are that loop followed by a lookup, so they return on
  every input too.
\<close>

theorem C10_reduce_terminates:
  "reduce_fuel 7 num (to * 2) 128 = Some (reduceNumberFromTo num to)"
  unfolding reduceNumberFromTo_def
  by (rule reduce_fuel_enough) simp

text \<open>Seven is the least such bound: with a threshold of 0 the loop never breaks early.\<close>

lemma reduce_fuel_six: "reduce_fuel 6 255 (0 * 2) 128 = None"
  by code_simp

section \<open>Bitfield recovery\<close>

lemma reduce_while_below: "num < to \<Longrightarrow> reduce_while num to y = num"
  by (simp add: reduce_while.simps [of num to y])

lemma reduce_while_sub:
  "1 < y \<Longrightarrow> to \<le> num \<Longrightarrow> y \<le> num \<Longrightarrow> num' = num - y \<Longrightarrow> y' = y div 2
    \<Longrightarrow> reduce_while num to y = reduce_while num' to y'"
  by (subst reduce_while.simps) simp

lemma reduce_while_keep:
  "1 < y \<Longrightarrow> to \<le> num \<Longrightarrow> num < y \<Longrightarrow> y' = y div 2
    \<Longrightarrow> reduce_while num to y = reduce_while num to y'"
  by (subst reduce_while.simps) simp

lemma reduce_while_strip:
  "0 \<le> c \<Longrightarrow> c < 16 \<Longrightarrow> 0 \<le> k \<Longrightarrow> k < 2 ^ Suc n
    \<Longrightarrow> reduce_while (c + 16 * k) 16 (16 * 2 ^ n) = c"
proof (induction n arbitrary: k)
  case 0
  then have "k = 0 \<or> k = 1" by auto
  then show ?case
    using 0 by (auto simp: reduce_while.simps [of _ 16 16] reduce_while_below)
next
  case (Suc n)
  have big: "(1::int) < 16 * 2 ^ Suc n"
    by (smt (verit) one_le_power)
  show ?case
  proof (cases "k = 0")
    case True
    then show ?thesis using Suc.prems by (simp add: reduce_while_below)
  next
    case nz: False
    then have ge: "16 \<le> c + 16 * k" using Suc.prems by simp
    show ?thesis
    proof (cases "k < 2 ^ Suc n")
      case True
      then have "c + 16 * k < 16 * 2 ^ Suc n" using Suc.prems by simp
      then have "reduce_while (c + 16 * k) 16 (16 * 2 ^ Suc n)
          = reduce_while (c + 16 * k) 16 (16 * 2 ^ n)"
        using big ge by (intro reduce_while_keep) simp_all
      then show ?thesis
        using Suc.IH [OF Suc.prems(1,2,3) True] by simp
    next
      case False
      define k' where "k' = k - 2 ^ Suc n"
      have k': "0 \<le> k'" "k' < 2 ^ Suc n"
        using False Suc.prems by (simp_all add: k'_def)
      have "reduce_while (c + 16 * k) 16 (16 * 2 ^ Suc n)
          = reduce_while (c + 16 * k') 16 (16 * 2 ^ n)"
        using big ge False Suc.prems by (intro reduce_while_sub) (simp_all add: k'_def)
      then show ?thesis
        using Suc.IH [OF Suc.prems(1,2) k'] by simp
    qed
  qed
qed

lemma reduce_dpad:
  assumes "0 \<le> c" "c < 16" "0 \<le> k" "k < 16"
  shows "reduceNumberFromTo (c + 16 * k) 8 = c"
  using reduce_while_strip [of c k 3] assms by (simp add: reduceNumberFromTo_def)

lemma reduce_gear:
  assumes "0 \<le> c" "c < 128"
  shows "reduceNumberFromTo (c + 128) 64 = c" "reduceNumberFromTo c 64 = c"
  using assms
  by (simp_all add: reduceNumberFromTo_def reduce_while.simps [of "c + 128" 128 128]
      reduce_while_below)

lemma subsets4:
  "S \<subseteq> {16, 32, 64, 128::int} \<Longrightarrow> \<exists>k. 0 \<le> k \<and> k < 16 \<and> \<Sum>S = 16 * k"
proof -
  assume "S \<subseteq> {16, 32, 64, 128::int}"
  then have "S \<in> Pow {16, 32, 64, 128}" by simp
  then have "S \<in> {{}, {128}, {64}, {64, 128}, {32}, {32, 128}, {32, 64}, {32, 64, 128},
     {16}, {16, 128}, {16, 64}, {16, 64, 128}, {16, 32}, {16, 32, 128}, {16, 32, 64},
     {16, 32, 64, 128}}"
    unfolding Pow_insert Pow_empty by (auto simp: insert_commute)
  then show ?thesis by fastforce
qed

lemma reduce_small: "0 \<le> c \<Longrightarrow> c < 16 \<Longrightarrow> reduceNumberFromTo c 8 = c"
  using reduce_dpad [of c 0] by simp

text \<open>
  C3. Flag bits above a field do not disturb its recovery. For every dpad code \<open>c\<close> from 0
  to 8 and every sum of distinct bits out of 16, 32, 64 and 128, the byte \<open>c\<close> plus that sum
  decodes to the same dpad value as \<open>c\<close> alone. For every gear code \<open>c\<close> out of 0, 1, 2, 4,
  8, 16, 32 and 64, the byte \<open>c + 128\<close> decodes to the same gear as \<open>c\<close>, and the test of
  bit 128 (buttonPlus) gives 1 on \<open>c + 128\<close> and 0 on \<open>c\<close>.
\<close>

theorem C3_bitfield_recovery:
  "(\<forall>c\<in>{0..8}. \<forall>S. S \<subseteq> {16, 32, 64, 128} \<longrightarrow> wheelDpad (c + \<Sum>S) = wheelDpad c)
   \<and> (\<forall>c\<in>{0, 1, 2, 4, 8, 16, 32, 64}.
         shifterGear (c + 128) = shifterGear c
         \<and> flag (c + 128) 128 = Num 1 \<and> flag c 128 = Num 0)"
proof (intro conjI ballI allI impI)
  fix c :: int and S :: "int set"
  assume c: "c \<in> {0..8}" and S: "S \<subseteq> {16, 32, 64, 128}"
  from subsets4 [OF S] obtain k where k: "0 \<le> k" "k < 16" "\<Sum>S = 16 * k" by blast
  have "reduceNumberFromTo (c + \<Sum>S) 8 = c"
    unfolding k(3) using c k by (intro reduce_dpad) simp_all
  moreover have "reduceNumberFromTo c 8 = c"
    using reduce_dpad [of c 0] c by simp
  ultimately show "wheelDpad (c + \<Sum>S) = wheelDpad c"
    by (simp add: wheelDpad_def)
next
  fix c :: int
  assume c: "c \<in> {0, 1, 2, 4, 8, 16, 32, 64}"
  then have "0 \<le> c" "c < 128" by auto
  then show "shifterGear (c + 128) = shifterGear c"
    by (simp add: shifterGear_def reduce_gear)
  show "flag (c + 128) 128 = Num 1" "flag c 128 = Num 0"
    using c by (auto simp: flag_def)
qed

theorem C3_witness:
  "wheelDpad (6 + \<Sum>{16, 64}) = wheelDpad 6 \<and> shifterGear (2 + 128) = shifterGear 2
   \<and> flag (2 + 128) 128 = Num 1"
proof -
  have "(6::int) \<in> {0..8}" "{16, 64} \<subseteq> {16, 32, 64, 128::int}" by simp_all
  then have "wheelDpad (6 + \<Sum>{16, 64}) = wheelDpad 6"
    using C3_bitfield_recovery by blast
  moreover have "(2::int) \<in> {0, 1, 2, 4, 8, 16, 32, 64}" by simp
  then have "shifterGear (2 + 128) = shifterGear 2 \<and> flag (2 + 128) 128 = Num 1"
    using C3_bitfield_recovery by blast
  ultimately show ?thesis by simp
qed

text \<open>
  C5. The recovered code is mapped by the fixed lookups: dpad 8 to 0, 7 to 8, 6 to 7, 5 to
  6, 4 to 5, 3 to 4, 2 to 3, 1 to 2, 0 to 1, and gear 0 to 0, 1 to 1, 2 to 2, 4 to 3, 8 to 4,
  16 to 5, 32 to 6, 64 to \<open>-1\<close>, any other code to 0. Each code of a table, sent alone as
  the byte, decodes to the table's value; byte 0 decodes dpad to 1, byte 64 gear to \<open>-1\<close>,
  byte 32 gear to 6, and byte 130 at index 2 gives gear 2 and buttonPlus 1.
\<close>

theorem C5_lookup_tables:
  "wheelDpad v = lookup_code dpad_lookup (reduceNumberFromTo v 8)
   \<and> shifterGear v = lookup_code gear_lookup (reduceNumberFromTo v 64)
   \<and> (\<forall>(c, r)\<in>set dpad_lookup. wheelDpad c = r)
   \<and> (\<forall>(c, r)\<in>set gear_lookup. shifterGear c = r)
   \<and> wheelDpad 0 = 1 \<and> shifterGear 64 = - 1 \<and> shifterGear 32 = 6
   \<and> pairs_of 2 [0, 0, 130, 0, 0, 0, 0, 0, 0, 0, 0, 0]
       = [(''shifter-gear'', Num 2), (''wheel-button_plus'', Num 1)]"
proof (intro conjI)
  show "wheelDpad v = lookup_code dpad_lookup (reduceNumberFromTo v 8)"
    by (simp add: wheelDpad_def lookup_code_def dpad_lookup_def Let_def)
  show "shifterGear v = lookup_code gear_lookup (reduceNumberFromTo v 64)"
    by (simp add: shifterGear_def lookup_code_def gear_lookup_def Let_def)
  show "\<forall>(c, r)\<in>set dpad_lookup. wheelDpad c = r"
    by (simp add: dpad_lookup_def wheelDpad_def reduce_small)
  show "\<forall>(c, r)\<in>set gear_lookup. shifterGear c = r"
    by (simp add: gear_lookup_def shifterGear_def reduce_gear)
  show "wheelDpad 0 = 1"
    by (simp add: wheelDpad_def reduce_small)
  show "shifterGear 64 = - 1" "shifterGear 32 = 6"
    by (simp_all add: shifterGear_def reduce_gear)
  have "shifterGear 130 = 2"
    using reduce_gear(1) [of 2] by (simp add: shifterGear_def)
  then show "pairs_of 2 [0, 0, 130, 0, 0, 0, 0, 0, 0, 0, 0, 0]
       = [(''shifter-gear'', Num 2), (''wheel-button_plus'', Num 1)]"
    by (simp add: pairs_of_def flag_def)
qed

theorem C5_witness:
  "wheelDpad 8 = 0 \<and> wheelDpad 7 = 8 \<and> wheelDpad 3 = 4 \<and> shifterGear 4 = 3
   \<and> shifterGear 64 = - 1 \<and> wheelDpad 9 = 0"
  using C5_lookup_tables [of 9] reduce_small [of 9]
  by (simp add: dpad_lookup_def gear_lookup_def lookup_code_def)

section \<open>Rounding to the nearest double\<close>

lemma bitlen_bounds:
  "0 < a \<Longrightarrow> 0 < bitlen a \<and> 2 ^ nat (bitlen a - 1) \<le> a \<and> a < 2 ^ nat (bitlen a)"
proof (induction a rule: bitlen.induct)
  case (1 a)
  show ?case
  proof (cases "a div 2 = 0")
    case True
    with 1(2) have "a = 1" by presburger
    then show ?thesis
      by (simp add: bitlen.simps [of 1] bitlen.simps [of 0])
  next
    case False
    with 1(2) have pos: "0 < a div 2" by simp
    define l where "l = bitlen (a div 2)"
    have IH: "0 < l" "2 ^ nat (l - 1) \<le> a div 2" "a div 2 < 2 ^ nat l"
      using 1(1) [OF 1(2) pos] by (simp_all add: l_def)
    have len: "bitlen a = 1 + l"
      using 1(2) by (simp add: bitlen.simps [of a] l_def)
    have p1: "(2::int) ^ nat l = 2 * 2 ^ nat (l - 1)"
      using IH(1) by (metis Suc_nat_eq_nat_zadd1 add.commute diff_add_cancel diff_ge_0_iff_ge
          int_one_le_iff_zero_less power_Suc)
    have p2: "(2::int) ^ nat (1 + l) = 2 * 2 ^ nat l"
      using IH(1) by (simp add: nat_add_distrib)
    have "2 ^ nat l \<le> a" using p1 IH(2) by presburger
    moreover have "a < 2 ^ nat (1 + l)" using p2 IH(3) by presburger
    ultimately show ?thesis using len IH(1) by simp
  qed
qed

lemma powi_nat: "0 \<le> l \<Longrightarrow> (2::rat) powi l = of_int (2 ^ nat l)"
  by (simp add: power_int_def)

lemma bitlen_rat:
  assumes "0 < a"
  shows "2 powi (bitlen a - 1) \<le> (of_int a :: rat)" "(of_int a :: rat) < 2 powi bitlen a"
proof -
  note b = bitlen_bounds [OF assms]
  have "(of_int (2 ^ nat (bitlen a - 1)) :: rat) \<le> of_int a"
    using b by (simp only: of_int_le_iff)
  then show "2 powi (bitlen a - 1) \<le> (of_int a :: rat)"
    using b by (simp add: powi_nat)
  have "(of_int a :: rat) < of_int (2 ^ nat (bitlen a))"
    using b by (simp only: of_int_less_iff)
  then show "(of_int a :: rat) < 2 powi bitlen a"
    using b by (simp add: powi_nat)
qed

lemma binade_spec:
  assumes "q \<noteq> 0"
  shows "2 powi binade q \<le> \<bar>q\<bar> \<and> \<bar>q\<bar> < 2 powi (binade q + 1)"
proof -
  obtain a b where ab: "quotient_of \<bar>q\<bar> = (a, b)" by (cases "quotient_of \<bar>q\<bar>")
  have b: "0 < b" using ab by (rule quotient_of_denom_pos)
  have q: "\<bar>q\<bar> = of_int a / of_int b" using ab by (rule quotient_of_div)
  have "0 < \<bar>q\<bar>" using assms by simp
  then have a: "0 < a" using q b by (simp add: zero_less_divide_iff)
  define d where "d = bitlen a - bitlen b"
  have lo: "2 powi (d - 1) \<le> \<bar>q\<bar>"
  proof -
    have "2 powi (d - 1) = (2::rat) powi (bitlen a - 1) / 2 powi bitlen b"
      using power_int_diff [of "2::rat" "bitlen a - 1" "bitlen b"]
      by (simp add: d_def algebra_simps)
    also have "\<dots> \<le> of_int a / of_int b"
      using bitlen_rat [OF a] bitlen_rat [OF b] a b
      by (intro frac_le) simp_all
    finally show ?thesis by (simp add: q)
  qed
  have hi: "\<bar>q\<bar> < 2 powi (d + 1)"
  proof -
    have "of_int a / of_int b < (2::rat) powi bitlen a / 2 powi (bitlen b - 1)"
      using bitlen_rat [OF a] bitlen_rat [OF b] a b
      by (intro frac_less) simp_all
    also have "\<dots> = 2 powi (d + 1)"
      using power_int_diff [of "2::rat" "bitlen a" "bitlen b - 1"]
      by (simp add: d_def algebra_simps)
    finally show ?thesis by (simp add: q)
  qed
  have "binade q = (if 2 powi d \<le> \<bar>q\<bar> then d else d - 1)"
    by (simp add: binade_def ab d_def Let_def)
  then show ?thesis using lo hi by auto
qed

lemma binade_mono:
  assumes "0 < x" "x \<le> y"
  shows "binade x \<le> binade y"
proof (rule ccontr)
  assume "\<not> binade x \<le> binade y"
  then have "binade y + 1 \<le> binade x" by simp
  then have "(2::rat) powi (binade y + 1) \<le> 2 powi binade x"
    by (intro power_int_increasing) simp_all
  also have "\<dots> \<le> x" using binade_spec [of x] assms by simp
  also have "\<dots> \<le> y" by fact
  also have "\<dots> < 2 powi (binade y + 1)" using binade_spec [of y] assms by simp
  finally show False by simp
qed

lemma round_half_even_of_int [simp]: "round_half_even (of_int n) = n"
  by (simp add: round_half_even_def)

lemma round_half_even_range:
  "\<lfloor>m\<rfloor> \<le> round_half_even m" "round_half_even m \<le> \<lfloor>m\<rfloor> + 1"
  by (simp_all add: round_half_even_def Let_def)

lemma round_half_even_mono:
  assumes "m \<le> m'"
  shows "round_half_even m \<le> round_half_even m'"
proof (cases "\<lfloor>m\<rfloor> < \<lfloor>m'\<rfloor>")
  case True
  then show ?thesis
    using round_half_even_range(2) [of m] round_half_even_range(1) [of m'] by linarith
next
  case False
  then have "\<lfloor>m\<rfloor> = \<lfloor>m'\<rfloor>" using assms floor_mono [OF assms] by simp
  then show ?thesis
    using assms by (auto simp: round_half_even_def Let_def)
qed

lemma fl_nonneg:
  assumes "0 \<le> x"
  shows "0 \<le> fl x"
proof (cases "x = 0")
  case True
  then show ?thesis by (simp add: fl_def)
next
  case False
  define u :: rat where "u = 2 powi (max (binade x) (- 1022) - 52)"
  have u: "0 < u" by (simp add: u_def)
  have "round_half_even 0 \<le> round_half_even (x / u)"
    using assms u by (intro round_half_even_mono) simp
  then have "0 \<le> round_half_even (x / u)"
    using round_half_even_of_int [of 0] by simp
  then show ?thesis
    using False u by (simp add: fl_def Let_def u_def)
qed

lemma fl_mono:
  assumes "0 \<le> x" "x \<le> y"
  shows "fl x \<le> fl y"
proof (cases "x = 0")
  case True
  then show ?thesis using fl_nonneg [of y] assms by (simp add: fl_def)
next
  case False
  then have x: "0 < x" and y: "0 < y" using assms by simp_all
  define ex where "ex = max (binade x) (- 1022)"
  define ey where "ey = max (binade y) (- 1022)"
  have flx: "fl x = of_int (round_half_even (x / 2 powi (ex - 52))) * 2 powi (ex - 52)"
    using x by (simp add: fl_def ex_def Let_def)
  have fly: "fl y = of_int (round_half_even (y / 2 powi (ey - 52))) * 2 powi (ey - 52)"
    using y by (simp add: fl_def ey_def Let_def)
  have le: "ex \<le> ey"
    using binade_mono [OF x assms(2)] by (simp add: ex_def ey_def)
  show ?thesis
  proof (cases "ex = ey")
    case True
    have "x / 2 powi (ey - 52) \<le> y / 2 powi (ey - 52)"
      using assms by (simp add: divide_right_mono)
    then have "round_half_even (x / 2 powi (ey - 52)) \<le> round_half_even (y / 2 powi (ey - 52))"
      by (rule round_half_even_mono)
    then show ?thesis
      unfolding flx fly True by (intro mult_right_mono) simp_all
  next
    case False
    with le have lt: "ex + 1 \<le> ey" by simp
    then have ey: "ey = binade y" by (simp add: ey_def ex_def)
    have "x < 2 powi (binade x + 1)" using binade_spec [of x] x by simp
    also have "\<dots> \<le> 2 powi (ex + 1)"
      by (intro power_int_increasing) (simp_all add: ex_def)
    finally have "x / 2 powi (ex - 52) \<le> 2 powi (ex + 1) / 2 powi (ex - 52)"
      by (intro divide_right_mono) simp_all
    also have "\<dots> = of_int (2 ^ 53)"
      using power_int_diff [of "2::rat" "ex + 1" "ex - 52"] by simp
    finally have "round_half_even (x / 2 powi (ex - 52)) \<le> round_half_even (of_int (2 ^ 53))"
      by (rule round_half_even_mono)
    then have "(of_int (round_half_even (x / 2 powi (ex - 52))) :: rat) \<le> of_int (2 ^ 53)"
      unfolding round_half_even_of_int by (simp only: of_int_le_iff)
    then have "fl x \<le> of_int (2 ^ 53) * 2 powi (ex - 52)"
      unfolding flx by (intro mult_right_mono) simp_all
    also have "\<dots> = 2 powi (ex + 1)"
      using power_int_add [of "2::rat" 53 "ex - 52"] by (simp add: add.commute)
    also have "\<dots> \<le> 2 powi ey"
      using lt by (intro power_int_increasing) simp_all
    finally have up: "fl x \<le> 2 powi ey" .
    have "2 powi ey \<le> y" using binade_spec [of y] y ey by simp
    then have "2 powi ey / 2 powi (ey - 52) \<le> y / 2 powi (ey - 52)"
      by (intro divide_right_mono) simp_all
    moreover have "2 powi ey / 2 powi (ey - 52) = (of_int (2 ^ 52) :: rat)"
      using power_int_diff [of "2::rat" ey "ey - 52"] by simp
    ultimately have "round_half_even (of_int (2 ^ 52)) \<le> round_half_even (y / 2 powi (ey - 52))"
      by (intro round_half_even_mono) simp
    then have "(of_int (2 ^ 52) :: rat) \<le> of_int (round_half_even (y / 2 powi (ey - 52)))"
      unfolding round_half_even_of_int by (simp only: of_int_le_iff)
    then have "of_int (2 ^ 52) * 2 powi (ey - 52) \<le> fl y"
      unfolding fly by (intro mult_right_mono) simp_all
    moreover have "of_int (2 ^ 52) * 2 powi (ey - 52) = (2::rat) powi ey"
      using power_int_add [of "2::rat" 52 "ey - 52"] by (simp add: add.commute)
    ultimately have "2 powi ey \<le> fl y" by simp
    with up show ?thesis by simp
  qed
qed

text \<open>The constants of the decoders: all of them are doubles, so no rounding occurs.\<close>

lemma fl_consts:
  "fl 1 = 1" "fl 100 = 100" "fdiv 100 256 = 25 / 64"
  "fsub 100 (fdiv 100 256) = 6375 / 64" "fsub 100 (25 / 64) = 6375 / 64"
  "fl (25 / 64) = 25 / 64" "fl (6375 / 64) = 6375 / 64" "Math_pow10 2 = 100"
  by code_simp+

lemma fdiv_unit:
  assumes "0 \<le> a" "a \<le> b" "0 < b"
  shows "0 \<le> fdiv a b" "fdiv a b \<le> 1"
proof -
  have q: "0 \<le> a / b" "a / b \<le> 1" using assms by simp_all
  show "0 \<le> fdiv a b" unfolding fdiv_def using q(1) by (rule fl_nonneg)
  show "fdiv a b \<le> 1"
    unfolding fdiv_def using fl_mono [OF q] by (simp add: fl_consts)
qed

lemma fmul_unit:
  assumes "0 \<le> x" "x \<le> 1" "0 \<le> c" "fl c = c"
  shows "0 \<le> fmul x c" "fmul x c \<le> c"
proof -
  have q: "0 \<le> x * c" "x * c \<le> c"
    using assms by (simp_all add: mult_left_le_one_le)
  show "0 \<le> fmul x c" unfolding fmul_def using q(1) by (rule fl_nonneg)
  show "fmul x c \<le> c"
    unfolding fmul_def using fl_mono [OF q] assms(4) by simp
qed

lemma round2_spec_unit:
  assumes "0 \<le> x" "x \<le> 1"
  shows "0 \<le> round2_spec x" "round2_spec x \<le> 1"
proof -
  note m = fmul_unit [OF assms, of 100, OF _ fl_consts(2)]
  define k where "k = \<lfloor>fmul x 100 + 1 / 2\<rfloor>"
  have "0 \<le> k" using m by (simp add: k_def)
  moreover have "fmul x 100 + 1 / 2 < 101" using m by simp
  then have "k < 101" unfolding k_def by (simp add: floor_less_iff)
  ultimately have "(0::rat) \<le> of_int k" "(of_int k :: rat) \<le> 100" by simp_all
  then show "0 \<le> round2_spec x" "round2_spec x \<le> 1"
    unfolding round2_spec_def k_def [symmetric] by (simp_all add: fdiv_unit)
qed

lemma round_num_2: "round_num x 2 = round2_spec x"
  by (simp add: round_num_def round2_spec_def Math_round_def fl_consts)

lemma pedalToPercent_spec: "pedalToPercent b = pedal_spec b"
  by (simp add: pedalToPercent_def pedal_spec_def round_num_2)

lemma byte_unit:
  assumes "0 \<le> b" "b \<le> 255"
  shows "0 \<le> fdiv (of_int b) 255" "fdiv (of_int b) 255 \<le> 1"
  using assms by (simp_all add: fdiv_unit)

lemma pedal_spec_range:
  assumes "0 \<le> b" "b \<le> 255"
  shows "0 \<le> pedal_spec b" "pedal_spec b \<le> 1"
proof -
  have "0 \<le> fdiv (of_int \<bar>b - 255\<bar>) 255 \<and> fdiv (of_int \<bar>b - 255\<bar>) 255 \<le> 1"
    using assms by (simp add: fdiv_unit)
  then show "0 \<le> pedal_spec b" "pedal_spec b \<le> 1"
    unfolding pedal_spec_def by (simp_all add: round2_spec_unit)
qed

lemma pedal_values: "pedal_spec 128 = 1 / 2" "pedal_spec 255 = 0" "pedal_spec 0 = 1"
  by code_simp+

text \<open>The terms that \<open>wheelTurn\<close> computes stay in the ranges its comments give.\<close>

lemma wheelFine_range:
  assumes "0 \<le> b" "b \<le> 255"
  shows "0 \<le> fmul (fdiv (of_int b) 255) (fdiv 100 256)"
    and "fmul (fdiv (of_int b) 255) (fdiv 100 256) \<le> 25 / 64"
  using fmul_unit [OF byte_unit [OF assms], of "25 / 64"]
  by (simp_all add: fl_consts)

lemma wheelCourse_range:
  assumes "0 \<le> b" "b \<le> 255"
  shows "0 \<le> fmul (fdiv (of_int b) 255) (fsub 100 (fdiv 100 256))"
    and "fmul (fdiv (of_int b) 255) (fsub 100 (fdiv 100 256)) \<le> 6375 / 64"
  using fmul_unit [OF byte_unit [OF assms], of "6375 / 64"]
  by (simp_all add: fl_consts)

lemma spec_ranges:
  assumes "0 \<le> b" "b \<le> 255"
  shows "0 \<le> fine_spec b" "fine_spec b \<le> 25 / 64"
    and "0 \<le> coarse_spec b" "coarse_spec b \<le> 6375 / 64"
  using assms by (simp_all add: fine_spec_def coarse_spec_def)

lemma spec_ends:
  "fine_spec 0 = 0" "fine_spec 255 = 25 / 64" "coarse_spec 0 = 0" "coarse_spec 255 = 6375 / 64"
  by (simp_all add: fine_spec_def coarse_spec_def)

lemma wheelTurn_vectors:
  "wheelTurn [0, 0, 0, 0, 0, 0] = Num 0"
  "wheelTurn [0, 0, 0, 0, 255, 255] = Num 100"
  "wheelTurn [0, 0, 0, 0, 0, 128] = Num 50"
  by code_simp+

lemma turn_spec_values: "turn_spec 51 139 = 2719 / 50" "turn_spec 0 128 = 50" "fl 50 = 50"
  by code_simp+

lemma fl_10000: "fl 10000 = 10000"
  by code_simp

section \<open>The error of the program's arithmetic\<close>

text \<open>
  Rounding to a double moves a number of magnitude at most \<open>B\<close> by at most \<open>B / 2\<^sup>5\<^sup>3\<close>.
  The errors of the operations of \<open>wheelTurn\<close> and \<open>pedalToPercent\<close> add up to less than
  the distance between the exact value and the next point where rounding to two decimals
  jumps, unless the exact value lies on such a point.
\<close>

lemma round_half_even_err: "\<bar>of_int (round_half_even m) - m\<bar> \<le> 1 / 2"
proof -
  have "of_int \<lfloor>m\<rfloor> \<le> m" "m < of_int \<lfloor>m\<rfloor> + 1" by linarith+
  then show ?thesis
    by (auto simp: round_half_even_def Let_def)
qed

lemma fl_error:
  assumes "\<bar>q\<bar> \<le> B" "1 / 2 \<le> B"
  shows "\<bar>fl q - q\<bar> \<le> B / 2 ^ 53"
proof (cases "q = 0")
  case True
  then show ?thesis using assms by (simp add: fl_def)
next
  case False
  define e where "e = max (binade q) (- 1022)"
  define ulp :: rat where "ulp = 2 powi (e - 52)"
  have ulp: "0 < ulp" by (simp add: ulp_def)
  have fl: "fl q = of_int (round_half_even (q / ulp)) * ulp"
    using False by (simp add: fl_def Let_def e_def ulp_def)
  have "fl q - q = (of_int (round_half_even (q / ulp)) - q / ulp) * ulp"
    using ulp by (simp add: fl field_simps)
  then have "\<bar>fl q - q\<bar> = \<bar>of_int (round_half_even (q / ulp)) - q / ulp\<bar> * ulp"
    using ulp by (simp add: abs_mult)
  also have "\<dots> \<le> 1 / 2 * ulp"
    using round_half_even_err [of "q / ulp"] ulp by (intro mult_right_mono) simp_all
  also have "1 / 2 * ulp = 2 powi e / 2 ^ 53"
    using power_int_diff [of "2::rat" e 53] power_int_diff [of "2::rat" e 52]
    by (simp add: ulp_def)
  also have "\<dots> \<le> B / 2 ^ 53"
  proof -
    have "(2::rat) powi e \<le> B"
    proof (cases "binade q \<le> - 1022")
      case True
      then have "e = - 1022" by (simp add: e_def)
      moreover have "(2::rat) powi (- 1022) \<le> 2 powi (- 1)"
        by (intro power_int_increasing) simp_all
      ultimately show ?thesis using assms(2) by simp
    next
      case False
      then have "e = binade q" by (simp add: e_def)
      then show ?thesis using binade_spec [OF \<open>q \<noteq> 0\<close>] assms(1) by simp
    qed
    then show ?thesis by (simp add: divide_right_mono)
  qed
  finally show ?thesis .
qed

lemma floor_near:
  assumes "0 < D" "M mod D \<noteq> 0" "\<bar>t - of_int M / of_int D\<bar> < 1 / of_int D"
  shows "\<lfloor>t :: rat\<rfloor> = M div D"
proof -
  define n where "n = M div D"
  define r where "r = M mod D"
  have M: "M = D * n + r" by (simp add: n_def r_def)
  have r: "1 \<le> r" "r \<le> D - 1"
    using assms(1,2) pos_mod_sign [of D M] pos_mod_bound [of D M] unfolding r_def by linarith+
  have D: "(0::rat) < of_int D" using assms(1) by simp
  have z: "of_int M / of_int D = (of_int n :: rat) + of_int r / of_int D"
    using D by (simp add: M field_simps)
  have "(1::rat) \<le> of_int r" "(of_int r :: rat) \<le> of_int D - 1"
    using r by linarith+
  then have "(1::rat) / of_int D \<le> of_int r / of_int D"
    "(of_int r :: rat) / of_int D \<le> (of_int D - 1) / of_int D"
    using D by (simp_all add: divide_right_mono)
  moreover have "((of_int D :: rat) - 1) / of_int D = 1 - 1 / of_int D"
    using D by (simp add: field_simps)
  moreover have "- (1 / of_int D) < t - of_int M / of_int D" "t - of_int M / of_int D < 1 / of_int D"
    using assms(3) by linarith+
  ultimately have "of_int n \<le> t" "t < of_int n + 1"
    unfolding z by linarith+
  then show ?thesis unfolding n_def [symmetric] by (simp add: floor_unique)
qed

lemma turn_sum_error:
  assumes "0 \<le> b4" "b4 \<le> 255" "0 \<le> b5" "b5 \<le> 255"
    and s: "s = fadd (fmul (fdiv (of_int b5) 255) (fsub 100 (fdiv 100 256)))
                     (fmul (fdiv (of_int b4) 255) (fdiv 100 256))"
  shows "\<bar>fmul s 100 + 1 / 2 - of_int (125 * b4 + 31875 * b5 + 408) / 816\<bar> \<le> 40100 / 2 ^ 53"
    and "0 \<le> s" and "s \<le> 100"
proof -
  define x4 :: rat where "x4 = of_int b4 / 255"
  define x5 :: rat where "x5 = of_int b5 / 255"
  define a4 where "a4 = fdiv (of_int b4) 255"
  define a5 where "a5 = fdiv (of_int b5) 255"
  define f where "f = fmul a4 (25 / 64)"
  define g where "g = fmul a5 (6375 / 64)"
  have s': "s = fadd g f"
    by (simp add: s f_def g_def a4_def a5_def fl_consts)
  have x4: "0 \<le> x4" "x4 \<le> 1" and x5: "0 \<le> x5" "x5 \<le> 1"
    using assms(1-4) by (simp_all add: x4_def x5_def)
  have a4: "0 \<le> a4" "a4 \<le> 1" and a5: "0 \<le> a5" "a5 \<le> 1"
    using byte_unit [OF assms(1,2)] byte_unit [OF assms(3,4)] by (simp_all add: a4_def a5_def)
  have e4: "\<bar>a4 - x4\<bar> \<le> 1 / 2 ^ 53"
    using fl_error [of x4 1] x4 by (simp add: a4_def x4_def fdiv_def)
  have e5: "\<bar>a5 - x5\<bar> \<le> 1 / 2 ^ 53"
    using fl_error [of x5 1] x5 by (simp add: a5_def x5_def fdiv_def)
  have f: "0 \<le> f" "f \<le> 25 / 64"
    using fmul_unit [OF a4, of "25 / 64"] by (simp_all add: f_def fl_consts)
  have g: "0 \<le> g" "g \<le> 6375 / 64"
    using fmul_unit [OF a5, of "6375 / 64"] by (simp_all add: g_def fl_consts)
  have ef: "\<bar>f - a4 * (25 / 64)\<bar> \<le> (1 / 2) / 2 ^ 53"
    unfolding f_def fmul_def using a4 by (intro fl_error) simp_all
  have eg: "\<bar>g - a5 * (6375 / 64)\<bar> \<le> 100 / 2 ^ 53"
    unfolding g_def fmul_def using a5 by (intro fl_error) simp_all
  have es: "\<bar>s - (g + f)\<bar> \<le> 100 / 2 ^ 53"
    unfolding s' fadd_def using f g by (intro fl_error) simp_all
  show s0: "0 \<le> s"
    unfolding s' fadd_def using f g by (intro fl_nonneg) simp
  have "fl (g + f) \<le> fl 100"
    using f g by (intro fl_mono) simp_all
  then show s1: "s \<le> 100"
    by (simp add: s' fadd_def fl_consts)
  have et: "\<bar>fmul s 100 - s * 100\<bar> \<le> 10000 / 2 ^ 53"
    unfolding fmul_def using s0 s1 by (intro fl_error) simp_all
  have exact: "of_int (125 * b4 + 31875 * b5 + 408) / 816
      = (x5 * (6375 / 64) + x4 * (25 / 64)) * 100 + (1 / 2 :: rat)"
    by (simp add: x4_def x5_def field_simps)
  show "\<bar>fmul s 100 + 1 / 2 - of_int (125 * b4 + 31875 * b5 + 408) / 816\<bar> \<le> 40100 / 2 ^ 53"
  proof -
    have b: "a4 - x4 \<le> 1 / 2 ^ 53" "x4 - a4 \<le> 1 / 2 ^ 53"
      "a5 - x5 \<le> 1 / 2 ^ 53" "x5 - a5 \<le> 1 / 2 ^ 53"
      "f - a4 * (25 / 64) \<le> (1 / 2) / 2 ^ 53" "a4 * (25 / 64) - f \<le> (1 / 2) / 2 ^ 53"
      "g - a5 * (6375 / 64) \<le> 100 / 2 ^ 53" "a5 * (6375 / 64) - g \<le> 100 / 2 ^ 53"
      "s - (g + f) \<le> 100 / 2 ^ 53" "g + f - s \<le> 100 / 2 ^ 53"
      "fmul s 100 - s * 100 \<le> 10000 / 2 ^ 53" "s * 100 - fmul s 100 \<le> 10000 / 2 ^ 53"
      using e4 e5 ef eg es et by linarith+
    have "fmul s 100 + 1 / 2 - ((x5 * (6375 / 64) + x4 * (25 / 64)) * 100 + 1 / 2)
        \<le> 40100 / 2 ^ 53"
      using b by (simp add: algebra_simps)
    moreover have "- (fmul s 100 + 1 / 2 - ((x5 * (6375 / 64) + x4 * (25 / 64)) * 100 + 1 / 2))
        \<le> 40100 / 2 ^ 53"
      using b by (simp add: algebra_simps)
    ultimately show ?thesis
      unfolding exact by (rule abs_leI)
  qed
qed

lemma wheelTurn_bytes:
  "elem data 4 = Some b4 \<Longrightarrow> elem data 5 = Some b5
    \<Longrightarrow> wheelTurn data = wheelTurn [0, 0, 0, 0, b4, b5]"
  by (simp add: wheelTurn_def elem_def)

lemma wheelTurn_floor:
  assumes "elem data 4 = Some b4" "elem data 5 = Some b5"
    and "s = fadd (fmul (fdiv (of_int b5) 255) (fsub 100 (fdiv 100 256)))
                  (fmul (fdiv (of_int b4) 255) (fdiv 100 256))"
  shows "wheelTurn data = Num (min (max (fdiv (of_int \<lfloor>fmul s 100 + 1 / 2\<rfloor>) 100) 0) 100)"
  using assms by (simp add: wheelTurn_def round_num_def Math_round_def fl_consts)

lemma wheelTurn_range:
  assumes "elem data 4 = Some b4" "elem data 5 = Some b5"
  shows "\<exists>x. wheelTurn data = Num x \<and> 0 \<le> x \<and> x \<le> 100"
  using assms by (simp add: wheelTurn_def)

lemma turn_spec_value:
  assumes "0 \<le> b4" "b4 \<le> 255" "0 \<le> b5" "b5 \<le> 255"
  shows "turn_spec b4 b5 = of_int ((125 * b4 + 31875 * b5 + 408) div 816) / 100"
    and "0 \<le> (125 * b4 + 31875 * b5 + 408) div 816"
    and "(125 * b4 + 31875 * b5 + 408) div 816 \<le> 10000"
proof -
  define M where "M = 125 * b4 + 31875 * b5 + 408"
  have "(coarse_spec b5 + fine_spec b4) * 100 + 1 / 2 = of_int M / of_int 816"
    by (simp add: coarse_spec_def fine_spec_def M_def field_simps)
  then have r: "round_decimals2 (coarse_spec b5 + fine_spec b4) = of_int (M div 816) / 100"
    unfolding round_decimals2_def by (simp only: floor_divide_of_int_eq)
  have M: "0 \<le> M" "M \<le> 8160408"
    using assms by (simp_all add: M_def)
  show n0: "0 \<le> M div 816"
    using M(1) by (simp add: pos_imp_zdiv_nonneg_iff)
  have "M div 816 \<le> 8160408 div 816"
    using M(2) by (rule zdiv_mono1) simp
  then show n1: "M div 816 \<le> 10000" by simp
  from n0 n1 have "(0::rat) \<le> of_int (M div 816) / 100" "(of_int (M div 816) :: rat) / 100 \<le> 100"
    by simp_all
  then show "turn_spec b4 b5 = of_int (M div 816) / 100"
    unfolding turn_spec_def r by (simp add: clamp_spec_def)
qed

lemma wheelTurn_of_floor:
  assumes "0 \<le> b4" "b4 \<le> 255" "0 \<le> b5" "b5 \<le> 255"
  shows "wheelTurn [0, 0, 0, 0, b4, b5]
    = Num (fl (of_int \<lfloor>fmul (fadd (fmul (fdiv (of_int b5) 255) (6375 / 64))
                                   (fmul (fdiv (of_int b4) 255) (25 / 64))) 100 + 1 / 2\<rfloor> / 100))"
proof -
  define s where "s = fadd (fmul (fdiv (of_int b5) 255) (fsub 100 (fdiv 100 256)))
                  (fmul (fdiv (of_int b4) 255) (fdiv 100 256))"
  define k where "k = \<lfloor>fmul s 100 + 1 / 2\<rfloor>"
  have s: "0 \<le> s" "s \<le> 100"
    using turn_sum_error(2,3) [OF assms s_def] .
  have t0: "0 \<le> fmul s 100"
    unfolding fmul_def using s by (intro fl_nonneg) simp
  have "fl (s * 100) \<le> fl 10000"
    using s by (intro fl_mono) simp_all
  then have t1: "fmul s 100 \<le> 10000"
    by (simp add: fmul_def fl_10000)
  have k0: "0 \<le> k" using t0 by (simp add: k_def)
  have "fmul s 100 + 1 / 2 < 10001" using t1 by simp
  then have "k < 10001" unfolding k_def by (simp add: floor_less_iff)
  then have q: "(0::rat) \<le> of_int k / 100" "(of_int k :: rat) / 100 \<le> 100"
    using k0 by simp_all
  have "0 \<le> fdiv (of_int k) 100"
    unfolding fdiv_def using q(1) by (rule fl_nonneg)
  moreover have "fdiv (of_int k) 100 \<le> 100"
    unfolding fdiv_def using fl_mono [OF q] by (simp add: fl_consts)
  moreover have "wheelTurn [0, 0, 0, 0, b4, b5] = Num (min (max (fdiv (of_int k) 100) 0) 100)"
    unfolding k_def by (rule wheelTurn_floor [OF _ _ s_def]) (simp_all add: elem_def)
  ultimately have "wheelTurn [0, 0, 0, 0, b4, b5] = Num (fl (of_int k / 100))"
    by (simp add: fdiv_def)
  then show ?thesis
    by (simp add: k_def s_def fl_consts)
qed

lemma wheelTurn_no_tie:
  assumes "0 \<le> b4" "b4 \<le> 255" "0 \<le> b5" "b5 \<le> 255"
    and "(125 * b4 + 31875 * b5 + 408) mod 816 \<noteq> 0"
  shows "wheelTurn [0, 0, 0, 0, b4, b5] = Num (fl (turn_spec b4 b5))"
proof -
  define s where "s = fadd (fmul (fdiv (of_int b5) 255) (fsub 100 (fdiv 100 256)))
                  (fmul (fdiv (of_int b4) 255) (fdiv 100 256))"
  have "\<bar>fmul s 100 + 1 / 2 - of_int (125 * b4 + 31875 * b5 + 408) / 816\<bar> \<le> 40100 / 2 ^ 53"
    using assms(1-4) s_def by (rule turn_sum_error)
  also have "\<dots> < (1::rat) / 816" by simp
  finally have "\<lfloor>fmul s 100 + 1 / 2\<rfloor> = (125 * b4 + 31875 * b5 + 408) div 816"
    using assms(5) floor_near [of 816 _ "fmul s 100 + 1 / 2"] by simp
  then have "wheelTurn [0, 0, 0, 0, b4, b5]
      = Num (fl (of_int ((125 * b4 + 31875 * b5 + 408) div 816) / 100))"
    using wheelTurn_of_floor [OF assms(1-4)] by (simp add: s_def fl_consts)
  then show ?thesis
    by (simp only: turn_spec_value(1) [OF assms(1-4)])
qed

lemma turn_ties:
  assumes "0 \<le> b4" "b4 \<le> 255"
    and "(125 * b4 + 31875 * b5 + 408) mod 816 = (0::int)"
  shows "\<exists>j\<in>{0..5}. b4 = 51 * j \<and> (b5 - 8 - 3 * j) mod 16 = 0"
proof -
  have "816 dvd 125 * b4 + 31875 * b5 + 408"
    using assms(3) by (simp add: dvd_eq_mod_eq_0)
  then obtain q where q: "125 * b4 + 31875 * b5 + 408 = 816 * q"
    by (auto simp: dvd_def)
  define j where "j = 20 * (16 * q - 625 * b5 - 8) - 49 * b4"
  have j: "b4 = 51 * j"
    using q by (simp add: j_def)
  then have "0 \<le> j" "j \<le> 5" using assms(1,2) by simp_all
  moreover have eq: "b5 - 8 - 3 * j = 16 * (q - 8 * j - 39 * b5 - 1)"
    using q unfolding j by simp
  have "(b5 - 8 - 3 * j) mod 16 = 0"
    by (subst eq) simp
  ultimately show ?thesis using j by auto
qed

text \<open>
  The 96 byte pairs at which \<open>(coarse + fine) \<times> 100\<close> is exactly halfway: byte 4 is a
  multiple of 51 and byte 5 is fixed modulo 16. Each is evaluated.
\<close>

lemma tie_floor_0_a:
  "\<lfloor>fmul (fadd (fmul (fdiv 8 255) (6375 / 64)) (fmul (fdiv 0 255) (25 / 64))) 100 + 1 / 2\<rfloor> = 313"
  "\<lfloor>fmul (fadd (fmul (fdiv 24 255) (6375 / 64)) (fmul (fdiv 0 255) (25 / 64))) 100 + 1 / 2\<rfloor> = 938"
  "\<lfloor>fmul (fadd (fmul (fdiv 40 255) (6375 / 64)) (fmul (fdiv 0 255) (25 / 64))) 100 + 1 / 2\<rfloor> = 1563"
  "\<lfloor>fmul (fadd (fmul (fdiv 56 255) (6375 / 64)) (fmul (fdiv 0 255) (25 / 64))) 100 + 1 / 2\<rfloor> = 2188"
  "\<lfloor>fmul (fadd (fmul (fdiv 72 255) (6375 / 64)) (fmul (fdiv 0 255) (25 / 64))) 100 + 1 / 2\<rfloor> = 2813"
  "\<lfloor>fmul (fadd (fmul (fdiv 88 255) (6375 / 64)) (fmul (fdiv 0 255) (25 / 64))) 100 + 1 / 2\<rfloor> = 3438"
  "\<lfloor>fmul (fadd (fmul (fdiv 104 255) (6375 / 64)) (fmul (fdiv 0 255) (25 / 64))) 100 + 1 / 2\<rfloor> = 4063"
  "\<lfloor>fmul (fadd (fmul (fdiv 120 255) (6375 / 64)) (fmul (fdiv 0 255) (25 / 64))) 100 + 1 / 2\<rfloor> = 4688"
  by code_simp+

lemma tie_values_0_a:
  "wheelTurn [0, 0, 0, 0, 0, 8] = Num (fl (turn_spec 0 8))"
  "wheelTurn [0, 0, 0, 0, 0, 24] = Num (fl (turn_spec 0 24))"
  "wheelTurn [0, 0, 0, 0, 0, 40] = Num (fl (turn_spec 0 40))"
  "wheelTurn [0, 0, 0, 0, 0, 56] = Num (fl (turn_spec 0 56))"
  "wheelTurn [0, 0, 0, 0, 0, 72] = Num (fl (turn_spec 0 72))"
  "wheelTurn [0, 0, 0, 0, 0, 88] = Num (fl (turn_spec 0 88))"
  "wheelTurn [0, 0, 0, 0, 0, 104] = Num (fl (turn_spec 0 104))"
  "wheelTurn [0, 0, 0, 0, 0, 120] = Num (fl (turn_spec 0 120))"
  by (simp_all add: wheelTurn_of_floor tie_floor_0_a turn_spec_value)

lemma tie_floor_0_b:
  "\<lfloor>fmul (fadd (fmul (fdiv 136 255) (6375 / 64)) (fmul (fdiv 0 255) (25 / 64))) 100 + 1 / 2\<rfloor> = 5313"
  "\<lfloor>fmul (fadd (fmul (fdiv 152 255) (6375 / 64)) (fmul (fdiv 0 255) (25 / 64))) 100 + 1 / 2\<rfloor> = 5938"
  "\<lfloor>fmul (fadd (fmul (fdiv 168 255) (6375 / 64)) (fmul (fdiv 0 255) (25 / 64))) 100 + 1 / 2\<rfloor> = 6563"
  "\<lfloor>fmul (fadd (fmul (fdiv 184 255) (6375 / 64)) (fmul (fdiv 0 255) (25 / 64))) 100 + 1 / 2\<rfloor> = 7188"
  "\<lfloor>fmul (fadd (fmul (fdiv 200 255) (6375 / 64)) (fmul (fdiv 0 255) (25 / 64))) 100 + 1 / 2\<rfloor> = 7813"
  "\<lfloor>fmul (fadd (fmul (fdiv 216 255) (6375 / 64)) (fmul (fdiv 0 255) (25 / 64))) 100 + 1 / 2\<rfloor> = 8438"
  "\<lfloor>fmul (fadd (fmul (fdiv 232 255) (6375 / 64)) (fmul (fdiv 0 255) (25 / 64))) 100 + 1 / 2\<rfloor> = 9063"
  "\<lfloor>fmul (fadd (fmul (fdiv 248 255) (6375 / 64)) (fmul (fdiv 0 255) (25 / 64))) 100 + 1 / 2\<rfloor> = 9688"
  by code_simp+

lemma tie_values_0_b:
  "wheelTurn [0, 0, 0, 0, 0, 136] = Num (fl (turn_spec 0 136))"
  "wheelTurn [0, 0, 0, 0, 0, 152] = Num (fl (turn_spec 0 152))"
  "wheelTurn [0, 0, 0, 0, 0, 168] = Num (fl (turn_spec 0 168))"
  "wheelTurn [0, 0, 0, 0, 0, 184] = Num (fl (turn_spec 0 184))"
  "wheelTurn [0, 0, 0, 0, 0, 200] = Num (fl (turn_spec 0 200))"
  "wheelTurn [0, 0, 0, 0, 0, 216] = Num (fl (turn_spec 0 216))"
  "wheelTurn [0, 0, 0, 0, 0, 232] = Num (fl (turn_spec 0 232))"
  "wheelTurn [0, 0, 0, 0, 0, 248] = Num (fl (turn_spec 0 248))"
  by (simp_all add: wheelTurn_of_floor tie_floor_0_b turn_spec_value)

lemma tie_row_0:
  assumes "0 \<le> b5" "b5 \<le> 255" "(b5 - 8) mod 16 = (0::int)"
  shows "wheelTurn [0, 0, 0, 0, 0, b5]
    = Num (fl (turn_spec 0 b5 - (if (0, b5) \<in> set low_ties then 1 / 100 else 0)))"
proof -
  have "b5 \<in> {8, 24, 40, 56, 72, 88, 104, 120, 136, 152, 168, 184, 200, 216, 232, 248}"
    using assms by (simp del: One_nat_def) presburger
  then show ?thesis
    using tie_values_0_a tie_values_0_b by (auto simp: low_ties_def)
qed

lemma tie_floor_51_a:
  "\<lfloor>fmul (fadd (fmul (fdiv 11 255) (6375 / 64)) (fmul (fdiv 51 255) (25 / 64))) 100 + 1 / 2\<rfloor> = 438"
  "\<lfloor>fmul (fadd (fmul (fdiv 27 255) (6375 / 64)) (fmul (fdiv 51 255) (25 / 64))) 100 + 1 / 2\<rfloor> = 1063"
  "\<lfloor>fmul (fadd (fmul (fdiv 43 255) (6375 / 64)) (fmul (fdiv 51 255) (25 / 64))) 100 + 1 / 2\<rfloor> = 1688"
  "\<lfloor>fmul (fadd (fmul (fdiv 59 255) (6375 / 64)) (fmul (fdiv 51 255) (25 / 64))) 100 + 1 / 2\<rfloor> = 2313"
  "\<lfloor>fmul (fadd (fmul (fdiv 75 255) (6375 / 64)) (fmul (fdiv 51 255) (25 / 64))) 100 + 1 / 2\<rfloor> = 2938"
  "\<lfloor>fmul (fadd (fmul (fdiv 91 255) (6375 / 64)) (fmul (fdiv 51 255) (25 / 64))) 100 + 1 / 2\<rfloor> = 3563"
  "\<lfloor>fmul (fadd (fmul (fdiv 107 255) (6375 / 64)) (fmul (fdiv 51 255) (25 / 64))) 100 + 1 / 2\<rfloor> = 4188"
  "\<lfloor>fmul (fadd (fmul (fdiv 123 255) (6375 / 64)) (fmul (fdiv 51 255) (25 / 64))) 100 + 1 / 2\<rfloor> = 4813"
  by code_simp+

lemma tie_values_51_a:
  "wheelTurn [0, 0, 0, 0, 51, 11] = Num (fl (turn_spec 51 11))"
  "wheelTurn [0, 0, 0, 0, 51, 27] = Num (fl (turn_spec 51 27))"
  "wheelTurn [0, 0, 0, 0, 51, 43] = Num (fl (turn_spec 51 43))"
  "wheelTurn [0, 0, 0, 0, 51, 59] = Num (fl (turn_spec 51 59))"
  "wheelTurn [0, 0, 0, 0, 51, 75] = Num (fl (turn_spec 51 75))"
  "wheelTurn [0, 0, 0, 0, 51, 91] = Num (fl (turn_spec 51 91))"
  "wheelTurn [0, 0, 0, 0, 51, 107] = Num (fl (turn_spec 51 107))"
  "wheelTurn [0, 0, 0, 0, 51, 123] = Num (fl (turn_spec 51 123))"
  by (simp_all add: wheelTurn_of_floor tie_floor_51_a turn_spec_value)

lemma tie_floor_51_b:
  "\<lfloor>fmul (fadd (fmul (fdiv 139 255) (6375 / 64)) (fmul (fdiv 51 255) (25 / 64))) 100 + 1 / 2\<rfloor> = 5437"
  "\<lfloor>fmul (fadd (fmul (fdiv 155 255) (6375 / 64)) (fmul (fdiv 51 255) (25 / 64))) 100 + 1 / 2\<rfloor> = 6062"
  "\<lfloor>fmul (fadd (fmul (fdiv 171 255) (6375 / 64)) (fmul (fdiv 51 255) (25 / 64))) 100 + 1 / 2\<rfloor> = 6688"
  "\<lfloor>fmul (fadd (fmul (fdiv 187 255) (6375 / 64)) (fmul (fdiv 51 255) (25 / 64))) 100 + 1 / 2\<rfloor> = 7313"
  "\<lfloor>fmul (fadd (fmul (fdiv 203 255) (6375 / 64)) (fmul (fdiv 51 255) (25 / 64))) 100 + 1 / 2\<rfloor> = 7938"
  "\<lfloor>fmul (fadd (fmul (fdiv 219 255) (6375 / 64)) (fmul (fdiv 51 255) (25 / 64))) 100 + 1 / 2\<rfloor> = 8563"
  "\<lfloor>fmul (fadd (fmul (fdiv 235 255) (6375 / 64)) (fmul (fdiv 51 255) (25 / 64))) 100 + 1 / 2\<rfloor> = 9188"
  "\<lfloor>fmul (fadd (fmul (fdiv 251 255) (6375 / 64)) (fmul (fdiv 51 255) (25 / 64))) 100 + 1 / 2\<rfloor> = 9813"
  by code_simp+

lemma tie_values_51_b:
  "wheelTurn [0, 0, 0, 0, 51, 139] = Num (fl (turn_spec 51 139 - 1 / 100))"
  "wheelTurn [0, 0, 0, 0, 51, 155] = Num (fl (turn_spec 51 155 - 1 / 100))"
  "wheelTurn [0, 0, 0, 0, 51, 171] = Num (fl (turn_spec 51 171))"
  "wheelTurn [0, 0, 0, 0, 51, 187] = Num (fl (turn_spec 51 187))"
  "wheelTurn [0, 0, 0, 0, 51, 203] = Num (fl (turn_spec 51 203))"
  "wheelTurn [0, 0, 0, 0, 51, 219] = Num (fl (turn_spec 51 219))"
  "wheelTurn [0, 0, 0, 0, 51, 235] = Num (fl (turn_spec 51 235))"
  "wheelTurn [0, 0, 0, 0, 51, 251] = Num (fl (turn_spec 51 251))"
  by (simp_all add: wheelTurn_of_floor tie_floor_51_b turn_spec_value)

lemma tie_row_51:
  assumes "0 \<le> b5" "b5 \<le> 255" "(b5 - 11) mod 16 = (0::int)"
  shows "wheelTurn [0, 0, 0, 0, 51, b5]
    = Num (fl (turn_spec 51 b5 - (if (51, b5) \<in> set low_ties then 1 / 100 else 0)))"
proof -
  have "b5 \<in> {11, 27, 43, 59, 75, 91, 107, 123, 139, 155, 171, 187, 203, 219, 235, 251}"
    using assms by (simp del: One_nat_def) presburger
  then show ?thesis
    using tie_values_51_a tie_values_51_b by (auto simp: low_ties_def)
qed

lemma tie_floor_102_a:
  "\<lfloor>fmul (fadd (fmul (fdiv 14 255) (6375 / 64)) (fmul (fdiv 102 255) (25 / 64))) 100 + 1 / 2\<rfloor> = 563"
  "\<lfloor>fmul (fadd (fmul (fdiv 30 255) (6375 / 64)) (fmul (fdiv 102 255) (25 / 64))) 100 + 1 / 2\<rfloor> = 1188"
  "\<lfloor>fmul (fadd (fmul (fdiv 46 255) (6375 / 64)) (fmul (fdiv 102 255) (25 / 64))) 100 + 1 / 2\<rfloor> = 1813"
  "\<lfloor>fmul (fadd (fmul (fdiv 62 255) (6375 / 64)) (fmul (fdiv 102 255) (25 / 64))) 100 + 1 / 2\<rfloor> = 2438"
  "\<lfloor>fmul (fadd (fmul (fdiv 78 255) (6375 / 64)) (fmul (fdiv 102 255) (25 / 64))) 100 + 1 / 2\<rfloor> = 3063"
  "\<lfloor>fmul (fadd (fmul (fdiv 94 255) (6375 / 64)) (fmul (fdiv 102 255) (25 / 64))) 100 + 1 / 2\<rfloor> = 3688"
  "\<lfloor>fmul (fadd (fmul (fdiv 110 255) (6375 / 64)) (fmul (fdiv 102 255) (25 / 64))) 100 + 1 / 2\<rfloor> = 4313"
  "\<lfloor>fmul (fadd (fmul (fdiv 126 255) (6375 / 64)) (fmul (fdiv 102 255) (25 / 64))) 100 + 1 / 2\<rfloor> = 4938"
  by code_simp+

lemma tie_values_102_a:
  "wheelTurn [0, 0, 0, 0, 102, 14] = Num (fl (turn_spec 102 14))"
  "wheelTurn [0, 0, 0, 0, 102, 30] = Num (fl (turn_spec 102 30))"
  "wheelTurn [0, 0, 0, 0, 102, 46] = Num (fl (turn_spec 102 46))"
  "wheelTurn [0, 0, 0, 0, 102, 62] = Num (fl (turn_spec 102 62))"
  "wheelTurn [0, 0, 0, 0, 102, 78] = Num (fl (turn_spec 102 78))"
  "wheelTurn [0, 0, 0, 0, 102, 94] = Num (fl (turn_spec 102 94))"
  "wheelTurn [0, 0, 0, 0, 102, 110] = Num (fl (turn_spec 102 110))"
  "wheelTurn [0, 0, 0, 0, 102, 126] = Num (fl (turn_spec 102 126))"
  by (simp_all add: wheelTurn_of_floor tie_floor_102_a turn_spec_value)

lemma tie_floor_102_b:
  "\<lfloor>fmul (fadd (fmul (fdiv 142 255) (6375 / 64)) (fmul (fdiv 102 255) (25 / 64))) 100 + 1 / 2\<rfloor> = 5563"
  "\<lfloor>fmul (fadd (fmul (fdiv 158 255) (6375 / 64)) (fmul (fdiv 102 255) (25 / 64))) 100 + 1 / 2\<rfloor> = 6188"
  "\<lfloor>fmul (fadd (fmul (fdiv 174 255) (6375 / 64)) (fmul (fdiv 102 255) (25 / 64))) 100 + 1 / 2\<rfloor> = 6813"
  "\<lfloor>fmul (fadd (fmul (fdiv 190 255) (6375 / 64)) (fmul (fdiv 102 255) (25 / 64))) 100 + 1 / 2\<rfloor> = 7438"
  "\<lfloor>fmul (fadd (fmul (fdiv 206 255) (6375 / 64)) (fmul (fdiv 102 255) (25 / 64))) 100 + 1 / 2\<rfloor> = 8063"
  "\<lfloor>fmul (fadd (fmul (fdiv 222 255) (6375 / 64)) (fmul (fdiv 102 255) (25 / 64))) 100 + 1 / 2\<rfloor> = 8688"
  "\<lfloor>fmul (fadd (fmul (fdiv 238 255) (6375 / 64)) (fmul (fdiv 102 255) (25 / 64))) 100 + 1 / 2\<rfloor> = 9313"
  "\<lfloor>fmul (fadd (fmul (fdiv 254 255) (6375 / 64)) (fmul (fdiv 102 255) (25 / 64))) 100 + 1 / 2\<rfloor> = 9938"
  by code_simp+

lemma tie_values_102_b:
  "wheelTurn [0, 0, 0, 0, 102, 142] = Num (fl (turn_spec 102 142))"
  "wheelTurn [0, 0, 0, 0, 102, 158] = Num (fl (turn_spec 102 158))"
  "wheelTurn [0, 0, 0, 0, 102, 174] = Num (fl (turn_spec 102 174))"
  "wheelTurn [0, 0, 0, 0, 102, 190] = Num (fl (turn_spec 102 190))"
  "wheelTurn [0, 0, 0, 0, 102, 206] = Num (fl (turn_spec 102 206))"
  "wheelTurn [0, 0, 0, 0, 102, 222] = Num (fl (turn_spec 102 222))"
  "wheelTurn [0, 0, 0, 0, 102, 238] = Num (fl (turn_spec 102 238))"
  "wheelTurn [0, 0, 0, 0, 102, 254] = Num (fl (turn_spec 102 254))"
  by (simp_all add: wheelTurn_of_floor tie_floor_102_b turn_spec_value)

lemma tie_row_102:
  assumes "0 \<le> b5" "b5 \<le> 255" "(b5 - 14) mod 16 = (0::int)"
  shows "wheelTurn [0, 0, 0, 0, 102, b5]
    = Num (fl (turn_spec 102 b5 - (if (102, b5) \<in> set low_ties then 1 / 100 else 0)))"
proof -
  have "b5 \<in> {14, 30, 46, 62, 78, 94, 110, 126, 142, 158, 174, 190, 206, 222, 238, 254}"
    using assms by (simp del: One_nat_def) presburger
  then show ?thesis
    using tie_values_102_a tie_values_102_b by (auto simp: low_ties_def)
qed

lemma tie_floor_153_a:
  "\<lfloor>fmul (fadd (fmul (fdiv 1 255) (6375 / 64)) (fmul (fdiv 153 255) (25 / 64))) 100 + 1 / 2\<rfloor> = 63"
  "\<lfloor>fmul (fadd (fmul (fdiv 17 255) (6375 / 64)) (fmul (fdiv 153 255) (25 / 64))) 100 + 1 / 2\<rfloor> = 688"
  "\<lfloor>fmul (fadd (fmul (fdiv 33 255) (6375 / 64)) (fmul (fdiv 153 255) (25 / 64))) 100 + 1 / 2\<rfloor> = 1313"
  "\<lfloor>fmul (fadd (fmul (fdiv 49 255) (6375 / 64)) (fmul (fdiv 153 255) (25 / 64))) 100 + 1 / 2\<rfloor> = 1938"
  "\<lfloor>fmul (fadd (fmul (fdiv 65 255) (6375 / 64)) (fmul (fdiv 153 255) (25 / 64))) 100 + 1 / 2\<rfloor> = 2563"
  "\<lfloor>fmul (fadd (fmul (fdiv 81 255) (6375 / 64)) (fmul (fdiv 153 255) (25 / 64))) 100 + 1 / 2\<rfloor> = 3187"
  "\<lfloor>fmul (fadd (fmul (fdiv 97 255) (6375 / 64)) (fmul (fdiv 153 255) (25 / 64))) 100 + 1 / 2\<rfloor> = 3813"
  "\<lfloor>fmul (fadd (fmul (fdiv 113 255) (6375 / 64)) (fmul (fdiv 153 255) (25 / 64))) 100 + 1 / 2\<rfloor> = 4438"
  by code_simp+

lemma tie_values_153_a:
  "wheelTurn [0, 0, 0, 0, 153, 1] = Num (fl (turn_spec 153 1))"
  "wheelTurn [0, 0, 0, 0, 153, 17] = Num (fl (turn_spec 153 17))"
  "wheelTurn [0, 0, 0, 0, 153, 33] = Num (fl (turn_spec 153 33))"
  "wheelTurn [0, 0, 0, 0, 153, 49] = Num (fl (turn_spec 153 49))"
  "wheelTurn [0, 0, 0, 0, 153, 65] = Num (fl (turn_spec 153 65))"
  "wheelTurn [0, 0, 0, 0, 153, 81] = Num (fl (turn_spec 153 81 - 1 / 100))"
  "wheelTurn [0, 0, 0, 0, 153, 97] = Num (fl (turn_spec 153 97))"
  "wheelTurn [0, 0, 0, 0, 153, 113] = Num (fl (turn_spec 153 113))"
  by (simp_all add: wheelTurn_of_floor tie_floor_153_a turn_spec_value)

lemma tie_floor_153_b:
  "\<lfloor>fmul (fadd (fmul (fdiv 129 255) (6375 / 64)) (fmul (fdiv 153 255) (25 / 64))) 100 + 1 / 2\<rfloor> = 5063"
  "\<lfloor>fmul (fadd (fmul (fdiv 145 255) (6375 / 64)) (fmul (fdiv 153 255) (25 / 64))) 100 + 1 / 2\<rfloor> = 5688"
  "\<lfloor>fmul (fadd (fmul (fdiv 161 255) (6375 / 64)) (fmul (fdiv 153 255) (25 / 64))) 100 + 1 / 2\<rfloor> = 6313"
  "\<lfloor>fmul (fadd (fmul (fdiv 177 255) (6375 / 64)) (fmul (fdiv 153 255) (25 / 64))) 100 + 1 / 2\<rfloor> = 6938"
  "\<lfloor>fmul (fadd (fmul (fdiv 193 255) (6375 / 64)) (fmul (fdiv 153 255) (25 / 64))) 100 + 1 / 2\<rfloor> = 7563"
  "\<lfloor>fmul (fadd (fmul (fdiv 209 255) (6375 / 64)) (fmul (fdiv 153 255) (25 / 64))) 100 + 1 / 2\<rfloor> = 8188"
  "\<lfloor>fmul (fadd (fmul (fdiv 225 255) (6375 / 64)) (fmul (fdiv 153 255) (25 / 64))) 100 + 1 / 2\<rfloor> = 8813"
  "\<lfloor>fmul (fadd (fmul (fdiv 241 255) (6375 / 64)) (fmul (fdiv 153 255) (25 / 64))) 100 + 1 / 2\<rfloor> = 9438"
  by code_simp+

lemma tie_values_153_b:
  "wheelTurn [0, 0, 0, 0, 153, 129] = Num (fl (turn_spec 153 129))"
  "wheelTurn [0, 0, 0, 0, 153, 145] = Num (fl (turn_spec 153 145))"
  "wheelTurn [0, 0, 0, 0, 153, 161] = Num (fl (turn_spec 153 161))"
  "wheelTurn [0, 0, 0, 0, 153, 177] = Num (fl (turn_spec 153 177))"
  "wheelTurn [0, 0, 0, 0, 153, 193] = Num (fl (turn_spec 153 193))"
  "wheelTurn [0, 0, 0, 0, 153, 209] = Num (fl (turn_spec 153 209))"
  "wheelTurn [0, 0, 0, 0, 153, 225] = Num (fl (turn_spec 153 225))"
  "wheelTurn [0, 0, 0, 0, 153, 241] = Num (fl (turn_spec 153 241))"
  by (simp_all add: wheelTurn_of_floor tie_floor_153_b turn_spec_value)

lemma tie_row_153:
  assumes "0 \<le> b5" "b5 \<le> 255" "(b5 - 17) mod 16 = (0::int)"
  shows "wheelTurn [0, 0, 0, 0, 153, b5]
    = Num (fl (turn_spec 153 b5 - (if (153, b5) \<in> set low_ties then 1 / 100 else 0)))"
proof -
  have "b5 \<in> {1, 17, 33, 49, 65, 81, 97, 113, 129, 145, 161, 177, 193, 209, 225, 241}"
    using assms by (simp del: One_nat_def) presburger
  then show ?thesis
    using tie_values_153_a tie_values_153_b by (auto simp: low_ties_def)
qed

lemma tie_floor_204_a:
  "\<lfloor>fmul (fadd (fmul (fdiv 4 255) (6375 / 64)) (fmul (fdiv 204 255) (25 / 64))) 100 + 1 / 2\<rfloor> = 188"
  "\<lfloor>fmul (fadd (fmul (fdiv 20 255) (6375 / 64)) (fmul (fdiv 204 255) (25 / 64))) 100 + 1 / 2\<rfloor> = 813"
  "\<lfloor>fmul (fadd (fmul (fdiv 36 255) (6375 / 64)) (fmul (fdiv 204 255) (25 / 64))) 100 + 1 / 2\<rfloor> = 1438"
  "\<lfloor>fmul (fadd (fmul (fdiv 52 255) (6375 / 64)) (fmul (fdiv 204 255) (25 / 64))) 100 + 1 / 2\<rfloor> = 2063"
  "\<lfloor>fmul (fadd (fmul (fdiv 68 255) (6375 / 64)) (fmul (fdiv 204 255) (25 / 64))) 100 + 1 / 2\<rfloor> = 2688"
  "\<lfloor>fmul (fadd (fmul (fdiv 84 255) (6375 / 64)) (fmul (fdiv 204 255) (25 / 64))) 100 + 1 / 2\<rfloor> = 3313"
  "\<lfloor>fmul (fadd (fmul (fdiv 100 255) (6375 / 64)) (fmul (fdiv 204 255) (25 / 64))) 100 + 1 / 2\<rfloor> = 3938"
  "\<lfloor>fmul (fadd (fmul (fdiv 116 255) (6375 / 64)) (fmul (fdiv 204 255) (25 / 64))) 100 + 1 / 2\<rfloor> = 4563"
  by code_simp+

lemma tie_values_204_a:
  "wheelTurn [0, 0, 0, 0, 204, 4] = Num (fl (turn_spec 204 4))"
  "wheelTurn [0, 0, 0, 0, 204, 20] = Num (fl (turn_spec 204 20))"
  "wheelTurn [0, 0, 0, 0, 204, 36] = Num (fl (turn_spec 204 36))"
  "wheelTurn [0, 0, 0, 0, 204, 52] = Num (fl (turn_spec 204 52))"
  "wheelTurn [0, 0, 0, 0, 204, 68] = Num (fl (turn_spec 204 68))"
  "wheelTurn [0, 0, 0, 0, 204, 84] = Num (fl (turn_spec 204 84))"
  "wheelTurn [0, 0, 0, 0, 204, 100] = Num (fl (turn_spec 204 100))"
  "wheelTurn [0, 0, 0, 0, 204, 116] = Num (fl (turn_spec 204 116))"
  by (simp_all add: wheelTurn_of_floor tie_floor_204_a turn_spec_value)

lemma tie_floor_204_b:
  "\<lfloor>fmul (fadd (fmul (fdiv 132 255) (6375 / 64)) (fmul (fdiv 204 255) (25 / 64))) 100 + 1 / 2\<rfloor> = 5188"
  "\<lfloor>fmul (fadd (fmul (fdiv 148 255) (6375 / 64)) (fmul (fdiv 204 255) (25 / 64))) 100 + 1 / 2\<rfloor> = 5813"
  "\<lfloor>fmul (fadd (fmul (fdiv 164 255) (6375 / 64)) (fmul (fdiv 204 255) (25 / 64))) 100 + 1 / 2\<rfloor> = 6438"
  "\<lfloor>fmul (fadd (fmul (fdiv 180 255) (6375 / 64)) (fmul (fdiv 204 255) (25 / 64))) 100 + 1 / 2\<rfloor> = 7063"
  "\<lfloor>fmul (fadd (fmul (fdiv 196 255) (6375 / 64)) (fmul (fdiv 204 255) (25 / 64))) 100 + 1 / 2\<rfloor> = 7688"
  "\<lfloor>fmul (fadd (fmul (fdiv 212 255) (6375 / 64)) (fmul (fdiv 204 255) (25 / 64))) 100 + 1 / 2\<rfloor> = 8313"
  "\<lfloor>fmul (fadd (fmul (fdiv 228 255) (6375 / 64)) (fmul (fdiv 204 255) (25 / 64))) 100 + 1 / 2\<rfloor> = 8938"
  "\<lfloor>fmul (fadd (fmul (fdiv 244 255) (6375 / 64)) (fmul (fdiv 204 255) (25 / 64))) 100 + 1 / 2\<rfloor> = 9563"
  by code_simp+

lemma tie_values_204_b:
  "wheelTurn [0, 0, 0, 0, 204, 132] = Num (fl (turn_spec 204 132))"
  "wheelTurn [0, 0, 0, 0, 204, 148] = Num (fl (turn_spec 204 148))"
  "wheelTurn [0, 0, 0, 0, 204, 164] = Num (fl (turn_spec 204 164))"
  "wheelTurn [0, 0, 0, 0, 204, 180] = Num (fl (turn_spec 204 180))"
  "wheelTurn [0, 0, 0, 0, 204, 196] = Num (fl (turn_spec 204 196))"
  "wheelTurn [0, 0, 0, 0, 204, 212] = Num (fl (turn_spec 204 212))"
  "wheelTurn [0, 0, 0, 0, 204, 228] = Num (fl (turn_spec 204 228))"
  "wheelTurn [0, 0, 0, 0, 204, 244] = Num (fl (turn_spec 204 244))"
  by (simp_all add: wheelTurn_of_floor tie_floor_204_b turn_spec_value)

lemma tie_row_204:
  assumes "0 \<le> b5" "b5 \<le> 255" "(b5 - 20) mod 16 = (0::int)"
  shows "wheelTurn [0, 0, 0, 0, 204, b5]
    = Num (fl (turn_spec 204 b5 - (if (204, b5) \<in> set low_ties then 1 / 100 else 0)))"
proof -
  have "b5 \<in> {4, 20, 36, 52, 68, 84, 100, 116, 132, 148, 164, 180, 196, 212, 228, 244}"
    using assms by (simp del: One_nat_def) presburger
  then show ?thesis
    using tie_values_204_a tie_values_204_b by (auto simp: low_ties_def)
qed

lemma tie_floor_255_a:
  "\<lfloor>fmul (fadd (fmul (fdiv 7 255) (6375 / 64)) (fmul (fdiv 255 255) (25 / 64))) 100 + 1 / 2\<rfloor> = 313"
  "\<lfloor>fmul (fadd (fmul (fdiv 23 255) (6375 / 64)) (fmul (fdiv 255 255) (25 / 64))) 100 + 1 / 2\<rfloor> = 938"
  "\<lfloor>fmul (fadd (fmul (fdiv 39 255) (6375 / 64)) (fmul (fdiv 255 255) (25 / 64))) 100 + 1 / 2\<rfloor> = 1563"
  "\<lfloor>fmul (fadd (fmul (fdiv 55 255) (6375 / 64)) (fmul (fdiv 255 255) (25 / 64))) 100 + 1 / 2\<rfloor> = 2188"
  "\<lfloor>fmul (fadd (fmul (fdiv 71 255) (6375 / 64)) (fmul (fdiv 255 255) (25 / 64))) 100 + 1 / 2\<rfloor> = 2813"
  "\<lfloor>fmul (fadd (fmul (fdiv 87 255) (6375 / 64)) (fmul (fdiv 255 255) (25 / 64))) 100 + 1 / 2\<rfloor> = 3438"
  "\<lfloor>fmul (fadd (fmul (fdiv 103 255) (6375 / 64)) (fmul (fdiv 255 255) (25 / 64))) 100 + 1 / 2\<rfloor> = 4063"
  "\<lfloor>fmul (fadd (fmul (fdiv 119 255) (6375 / 64)) (fmul (fdiv 255 255) (25 / 64))) 100 + 1 / 2\<rfloor> = 4688"
  by code_simp+

lemma tie_values_255_a:
  "wheelTurn [0, 0, 0, 0, 255, 7] = Num (fl (turn_spec 255 7))"
  "wheelTurn [0, 0, 0, 0, 255, 23] = Num (fl (turn_spec 255 23))"
  "wheelTurn [0, 0, 0, 0, 255, 39] = Num (fl (turn_spec 255 39))"
  "wheelTurn [0, 0, 0, 0, 255, 55] = Num (fl (turn_spec 255 55))"
  "wheelTurn [0, 0, 0, 0, 255, 71] = Num (fl (turn_spec 255 71))"
  "wheelTurn [0, 0, 0, 0, 255, 87] = Num (fl (turn_spec 255 87))"
  "wheelTurn [0, 0, 0, 0, 255, 103] = Num (fl (turn_spec 255 103))"
  "wheelTurn [0, 0, 0, 0, 255, 119] = Num (fl (turn_spec 255 119))"
  by (simp_all add: wheelTurn_of_floor tie_floor_255_a turn_spec_value)

lemma tie_floor_255_b:
  "\<lfloor>fmul (fadd (fmul (fdiv 135 255) (6375 / 64)) (fmul (fdiv 255 255) (25 / 64))) 100 + 1 / 2\<rfloor> = 5313"
  "\<lfloor>fmul (fadd (fmul (fdiv 151 255) (6375 / 64)) (fmul (fdiv 255 255) (25 / 64))) 100 + 1 / 2\<rfloor> = 5938"
  "\<lfloor>fmul (fadd (fmul (fdiv 167 255) (6375 / 64)) (fmul (fdiv 255 255) (25 / 64))) 100 + 1 / 2\<rfloor> = 6563"
  "\<lfloor>fmul (fadd (fmul (fdiv 183 255) (6375 / 64)) (fmul (fdiv 255 255) (25 / 64))) 100 + 1 / 2\<rfloor> = 7188"
  "\<lfloor>fmul (fadd (fmul (fdiv 199 255) (6375 / 64)) (fmul (fdiv 255 255) (25 / 64))) 100 + 1 / 2\<rfloor> = 7813"
  "\<lfloor>fmul (fadd (fmul (fdiv 215 255) (6375 / 64)) (fmul (fdiv 255 255) (25 / 64))) 100 + 1 / 2\<rfloor> = 8438"
  "\<lfloor>fmul (fadd (fmul (fdiv 231 255) (6375 / 64)) (fmul (fdiv 255 255) (25 / 64))) 100 + 1 / 2\<rfloor> = 9063"
  "\<lfloor>fmul (fadd (fmul (fdiv 247 255) (6375 / 64)) (fmul (fdiv 255 255) (25 / 64))) 100 + 1 / 2\<rfloor> = 9688"
  by code_simp+

lemma tie_values_255_b:
  "wheelTurn [0, 0, 0, 0, 255, 135] = Num (fl (turn_spec 255 135))"
  "wheelTurn [0, 0, 0, 0, 255, 151] = Num (fl (turn_spec 255 151))"
  "wheelTurn [0, 0, 0, 0, 255, 167] = Num (fl (turn_spec 255 167))"
  "wheelTurn [0, 0, 0, 0, 255, 183] = Num (fl (turn_spec 255 183))"
  "wheelTurn [0, 0, 0, 0, 255, 199] = Num (fl (turn_spec 255 199))"
  "wheelTurn [0, 0, 0, 0, 255, 215] = Num (fl (turn_spec 255 215))"
  "wheelTurn [0, 0, 0, 0, 255, 231] = Num (fl (turn_spec 255 231))"
  "wheelTurn [0, 0, 0, 0, 255, 247] = Num (fl (turn_spec 255 247))"
  by (simp_all add: wheelTurn_of_floor tie_floor_255_b turn_spec_value)

lemma tie_row_255:
  assumes "0 \<le> b5" "b5 \<le> 255" "(b5 - 23) mod 16 = (0::int)"
  shows "wheelTurn [0, 0, 0, 0, 255, b5]
    = Num (fl (turn_spec 255 b5 - (if (255, b5) \<in> set low_ties then 1 / 100 else 0)))"
proof -
  have "b5 \<in> {7, 23, 39, 55, 71, 87, 103, 119, 135, 151, 167, 183, 199, 215, 231, 247}"
    using assms by (simp del: One_nat_def) presburger
  then show ?thesis
    using tie_values_255_a tie_values_255_b by (auto simp: low_ties_def)
qed

lemma wheelTurn_tie:
  assumes "0 \<le> b4" "b4 \<le> 255" "0 \<le> b5" "b5 \<le> 255"
    and "(125 * b4 + 31875 * b5 + 408) mod 816 = 0"
  shows "wheelTurn [0, 0, 0, 0, b4, b5]
    = Num (fl (turn_spec b4 b5 - (if (b4, b5) \<in> set low_ties then 1 / 100 else 0)))"
proof -
  from turn_ties [OF assms(1,2,5)]
  obtain j where j: "j \<in> {0..5}" "b4 = 51 * j" "(b5 - 8 - 3 * j) mod 16 = 0" by auto
  from j(1) have "j = 0 \<or> j = 1 \<or> j = 2 \<or> j = 3 \<or> j = 4 \<or> j = 5" by auto
  then show ?thesis
    using j(2,3) assms(3,4)
      tie_row_0 [of b5] tie_row_51 [of b5] tie_row_102 [of b5]
      tie_row_153 [of b5] tie_row_204 [of b5] tie_row_255 [of b5]
    by (elim disjE) simp_all
qed

lemma low_ties_are_ties:
  "(b4, b5) \<in> set low_ties \<Longrightarrow> (125 * b4 + 31875 * b5 + 408) mod 816 = 0"
  by (auto simp: low_ties_def)

lemma wheelTurn_formula:
  assumes "0 \<le> b4" "b4 \<le> 255" "0 \<le> b5" "b5 \<le> 255"
    and "elem data 4 = Some b4" "elem data 5 = Some b5"
  shows "wheelTurn data
    = Num (fl (turn_spec b4 b5 - (if (b4, b5) \<in> set low_ties then 1 / 100 else 0)))"
proof (cases "(125 * b4 + 31875 * b5 + 408) mod 816 = 0")
  case True
  then show ?thesis
    using wheelTurn_tie [OF assms(1-4)] wheelTurn_bytes [OF assms(5,6)] by simp
next
  case False
  then have "(b4, b5) \<notin> set low_ties"
    using low_ties_are_ties by blast
  then show ?thesis
    using wheelTurn_no_tie [OF assms(1-4) False] wheelTurn_bytes [OF assms(5,6)] by simp
qed

lemma pedalToPercent_exact:
  assumes "0 \<le> b" "b \<le> 255"
  shows "pedalToPercent b = fl (pedal_exact b)"
proof -
  define x :: rat where "x = of_int \<bar>b - 255\<bar> / 255"
  define a where "a = fdiv (of_int \<bar>b - 255\<bar>) 255"
  define P where "P = 40 * (255 - b) + 51"
  have x: "0 \<le> x" "x \<le> 1" using assms by (simp_all add: x_def)
  have a: "0 \<le> a" "a \<le> 1" using assms by (simp_all add: a_def fdiv_unit)
  have ea: "\<bar>a - x\<bar> \<le> 1 / 2 ^ 53"
    using fl_error [of x 1] x by (simp add: a_def x_def fdiv_def)
  have et: "\<bar>fmul a 100 - a * 100\<bar> \<le> 100 / 2 ^ 53"
    unfolding fmul_def using a by (intro fl_error) simp_all
  have exact: "x * 100 + 1 / 2 = of_int P / of_int 102"
    using assms by (simp add: x_def P_def field_simps)
  have "\<bar>fmul a 100 + 1 / 2 - (x * 100 + 1 / 2)\<bar> \<le> 200 / 2 ^ 53"
  proof -
    have b: "a - x \<le> 1 / 2 ^ 53" "x - a \<le> 1 / 2 ^ 53"
      "fmul a 100 - a * 100 \<le> 100 / 2 ^ 53" "a * 100 - fmul a 100 \<le> 100 / 2 ^ 53"
      using ea et by linarith+
    have "fmul a 100 + 1 / 2 - (x * 100 + 1 / 2) \<le> 200 / 2 ^ 53"
      using b by (simp add: algebra_simps)
    moreover have "- (fmul a 100 + 1 / 2 - (x * 100 + 1 / 2)) \<le> 200 / 2 ^ 53"
      using b by (simp add: algebra_simps)
    ultimately show ?thesis by (rule abs_leI)
  qed
  also have "\<dots> < 1 / of_int 102" by simp
  finally have near: "\<bar>fmul a 100 + 1 / 2 - of_int P / of_int 102\<bar> < 1 / of_int 102"
    unfolding exact .
  have "odd P" by (simp add: P_def)
  then have "P mod 102 \<noteq> 0" by presburger
  then have "\<lfloor>fmul a 100 + 1 / 2\<rfloor> = P div 102"
    using near by (intro floor_near) simp_all
  then have code: "pedalToPercent b = fl (of_int (P div 102) / 100)"
    by (simp add: pedalToPercent_def round_num_def Math_round_def fl_consts a_def fdiv_def)
  have "pedal_exact b = of_int (P div 102) / 100"
    unfolding pedal_exact_def round_decimals2_def x_def [symmetric] exact
    by (simp only: floor_divide_of_int_eq)
  then show ?thesis by (simp only: code)
qed

section \<open>Properties of the change detector\<close>

lemma compareState_unchanged:
  "k \<notin> fst ` set ps \<Longrightarrow> map_of (fst (compareState st ch ps)) k = map_of st k"
proof (induction ps arbitrary: st ch)
  case Nil
  then show ?case by simp
next
  case (Cons p ps)
  obtain key v where p: "p = (key, v)" by (cases p)
  from Cons.prems have "k \<noteq> key" "k \<notin> fst ` set ps" by (auto simp: p)
  then show ?case
    unfolding p by (simp add: Cons.IH update_conv')
qed

lemma strict_neq_False: "\<not> strict_neq old v \<Longrightarrow> old = Some v"
  by (auto simp: strict_neq_def split: option.splits jsnum.splits)

lemma compareState_sets:
  "distinct (map fst ps) \<Longrightarrow> (k, v) \<in> set ps
    \<Longrightarrow> map_of (fst (compareState st ch ps)) k = Some v"
proof (induction ps arbitrary: st ch)
  case Nil
  then show ?case by simp
next
  case (Cons p ps)
  obtain key w where p: "p = (key, w)" by (cases p)
  show ?case
  proof (cases "(k, v) \<in> set ps")
    case True
    then show ?thesis
      using Cons.prems Cons.IH unfolding p by simp
  next
    case False
    with Cons.prems have eq: "key = k" "w = v" and notin: "k \<notin> fst ` set ps"
      by (auto simp: p)
    show ?thesis
      unfolding p eq
      by (auto simp: compareState_unchanged [OF notin] update_conv' dest: strict_neq_False)
  qed
qed

lemma set_update_subset: "set (AList.update k v al) \<subseteq> insert (k, v) (set al)"
  by (induction al) auto

lemma compareState_subset:
  "set (fst (compareState st ch ps)) \<subseteq> set st \<union> set ps
   \<and> set (snd (compareState st ch ps)) \<subseteq> set ch \<union> set ps"
proof (induction ps arbitrary: st ch)
  case Nil
  then show ?case by simp
next
  case (Cons p ps)
  obtain key v where p: "p = (key, v)" by (cases p)
  show ?case
  proof (cases "strict_neq (map_of st key) v")
    case True
    have "set (fst (compareState (AList.update key v st) (AList.update key v ch) ps))
        \<subseteq> set (AList.update key v st) \<union> set ps"
      and "set (snd (compareState (AList.update key v st) (AList.update key v ch) ps))
        \<subseteq> set (AList.update key v ch) \<union> set ps"
      using Cons.IH by blast+
    then show ?thesis
      unfolding p using True set_update_subset [of key v st] set_update_subset [of key v ch]
      by auto
  next
    case False
    then show ?thesis
      unfolding p using Cons.IH [of st ch] by auto
  qed
qed

lemma state_ok_iff: "state_ok st \<longleftrightarrow> (\<forall>(k, v)\<in>set st. in_range k v)"
  by (simp add: state_ok_def list_all_iff)

lemma compareState_ok:
  assumes "state_ok st" "state_ok ch" "state_ok ps"
  shows "state_ok (fst (compareState st ch ps))" "state_ok (snd (compareState st ch ps))"
  using assms compareState_subset [of st ch ps] unfolding state_ok_iff by blast+

lemma update_index_same: "update_index data data i sc = sc"
  by (simp add: update_index_def)

lemma fold_id: "(\<And>x. x \<in> set xs \<Longrightarrow> f x = id) \<Longrightarrow> fold f xs = id"
  by (induction xs) simp_all

lemma updateState_same: "updateState data data st = (st, [])"
proof -
  have "fold (update_index data data) [0..<length data] = id"
    by (rule fold_id) (simp add: fun_eq_iff update_index_same)
  then show ?thesis by (simp add: updateState_def)
qed

lemma distinct_pairs_of: "distinct (map fst (pairs_of i data))"
  by (simp add: pairs_of_def Let_def)

lemma fold_tracks:
  assumes same: "\<forall>i v. (k, v) \<in> set (pairs_of i data) \<longrightarrow> v = w"
  shows "map_of (fst (fold (update_index data prev) idxs sc)) k =
     (if \<exists>i\<in>set idxs. elem data i \<noteq> elem prev i \<and> k \<in> fst ` set (pairs_of i data)
      then Some w else map_of (fst sc) k)"
proof (induction idxs arbitrary: sc)
  case Nil
  then show ?case by simp
next
  case (Cons i idxs)
  define sc' where "sc' = update_index data prev i sc"
  have first: "map_of (fst sc') k =
     (if elem data i \<noteq> elem prev i \<and> k \<in> fst ` set (pairs_of i data)
      then Some w else map_of (fst sc) k)"
  proof (cases "elem data i \<noteq> elem prev i \<and> k \<in> fst ` set (pairs_of i data)")
    case True
    then obtain v where v: "(k, v) \<in> set (pairs_of i data)" by auto
    then have "v = w" using same by blast
    with v True show ?thesis
      by (simp add: sc'_def update_index_def compareState_sets [OF distinct_pairs_of])
  next
    case False
    then show ?thesis
      by (auto simp: sc'_def update_index_def compareState_unchanged)
  qed
  have "fold (update_index data prev) (i # idxs) sc = fold (update_index data prev) idxs sc'"
    by (simp add: sc'_def)
  then show ?case
    using Cons.IH [of sc'] first by auto
qed

lemma fold_ok:
  assumes "\<And>i. i \<in> set idxs \<Longrightarrow> state_ok (pairs_of i data)"
    and "state_ok (fst sc)" "state_ok (snd sc)"
  shows "state_ok (fst (fold (update_index data prev) idxs sc))
       \<and> state_ok (snd (fold (update_index data prev) idxs sc))"
  using assms
proof (induction idxs arbitrary: sc)
  case Nil
  then show ?case by simp
next
  case (Cons i idxs)
  have "state_ok (fst (update_index data prev i sc))
      \<and> state_ok (snd (update_index data prev i sc))"
    using Cons.prems by (simp add: update_index_def compareState_ok)
  then show ?case
    using Cons.IH [of "update_index data prev i sc"] Cons.prems(1) by simp
qed

lemma updateState_field:
  assumes "\<forall>i v. (k, v) \<in> set (pairs_of i data) \<longrightarrow> v = w"
  shows "map_of (fst (updateState data prev st)) k =
     (if \<exists>i<length data. elem data i \<noteq> elem prev i \<and> k \<in> fst ` set (pairs_of i data)
      then Some w else map_of st k)"
proof -
  have "map_of (fst (fold (update_index data prev) [0..<length data] (st, []))) k =
     (if \<exists>i\<in>set [0..<length data].
           elem data i \<noteq> elem prev i \<and> k \<in> fst ` set (pairs_of i data)
      then Some w else map_of (fst (st, [] :: LogitechG29State)) k)"
    using assms by (rule fold_tracks)
  moreover have "(\<exists>i\<in>set [0..<length data].
           elem data i \<noteq> elem prev i \<and> k \<in> fst ` set (pairs_of i data))
     \<longleftrightarrow> (\<exists>i<length data. elem data i \<noteq> elem prev i \<and> k \<in> fst ` set (pairs_of i data))"
    by auto
  ultimately show ?thesis
    by (simp only: updateState_def fst_conv)
qed

lemma fst_image_iff: "k \<in> fst ` S \<longleftrightarrow> (\<exists>v. (k, v) \<in> S)"
  by force

lemma turn_pairs:
  "(''wheel-turn'', v) \<in> set (pairs_of i data) \<longleftrightarrow> (i = 4 \<or> i = 5) \<and> v = wheelTurn data"
  by (auto simp: pairs_of_def Let_def)

lemma updateState_turn:
  assumes "length data = 12"
  shows "map_of (fst (updateState data prev st)) ''wheel-turn'' =
     (if elem data 4 \<noteq> elem prev 4 \<or> elem data 5 \<noteq> elem prev 5
      then Some (wheelTurn data) else map_of st ''wheel-turn'')"
proof -
  have "(\<exists>i<length data. elem data i \<noteq> elem prev i \<and> ''wheel-turn'' \<in> fst ` set (pairs_of i data))
      \<longleftrightarrow> elem data 4 \<noteq> elem prev 4 \<or> elem data 5 \<noteq> elem prev 5"
    (is "?L \<longleftrightarrow> ?R")
  proof
    assume ?L
    then show ?R by (auto simp: fst_image_iff turn_pairs)
  next
    assume ?R
    then show ?L
    proof
      assume "elem data 4 \<noteq> elem prev 4"
      then have "4 < length data \<and> elem data 4 \<noteq> elem prev 4
          \<and> ''wheel-turn'' \<in> fst ` set (pairs_of 4 data)"
        using assms by (simp add: fst_image_iff turn_pairs)
      then show ?L by blast
    next
      assume "elem data 5 \<noteq> elem prev 5"
      then have "5 < length data \<and> elem data 5 \<noteq> elem prev 5
          \<and> ''wheel-turn'' \<in> fst ` set (pairs_of 5 data)"
        using assms by (simp add: fst_image_iff turn_pairs)
      then show ?L by blast
    qed
  qed
  then show ?thesis
    using updateState_field [of "''wheel-turn''" data "wheelTurn data" prev st]
    by (simp add: turn_pairs)
qed

lemma pedal_pairs:
  "(''pedals-gas'', v) \<in> set (pairs_of i data) \<longleftrightarrow> i = 6 \<and> v = Num (pedalToPercent (data ! 6))"
  "(''pedals-brake'', v) \<in> set (pairs_of i data) \<longleftrightarrow> i = 7 \<and> v = Num (pedalToPercent (data ! 7))"
  "(''pedals-clutch'', v) \<in> set (pairs_of i data) \<longleftrightarrow> i = 8 \<and> v = Num (pedalToPercent (data ! 8))"
  by (auto simp: pairs_of_def Let_def)

lemma updateState_single:
  assumes "\<forall>i v. (k, v) \<in> set (pairs_of i data) \<longleftrightarrow> i = j \<and> v = w" "j < length data"
  shows "map_of (fst (updateState data prev st)) k =
     (if elem data j \<noteq> elem prev j then Some w else map_of st k)"
proof -
  have "(\<exists>i<length data. elem data i \<noteq> elem prev i \<and> k \<in> fst ` set (pairs_of i data))
      \<longleftrightarrow> elem data j \<noteq> elem prev j"
    using assms by (auto simp: fst_image_iff)
  moreover have "\<forall>i v. (k, v) \<in> set (pairs_of i data) \<longrightarrow> v = w"
    using assms(1) by simp
  ultimately show ?thesis
    using updateState_field [of k data w prev st] by simp
qed

lemma upt_12: "[0..<12] = [0, 1, 2, 3, 4, 5, 6, 7, 8, 9, 10, 11]"
  by (simp add: upt_rec)

lemma zeros_12: "replicate 12 (0::int) = [0, 0, 0, 0, 0, 0, 0, 0, 0, 0, 0, 0]"
  by (simp add: numeral_eq_Suc)

lemma scenario_update:
  assumes "\<forall>key\<in>set [''pedals-gas'', ''pedals-brake'', ''pedals-clutch''].
      map_of st key = None \<or> map_of st key = Some (Num 1)"
  shows "updateState [0, 0, 0, 0, 0, 0, 128, 255, 255, 0, 0, 0]
      [0, 0, 0, 0, 0, 0, 0, 0, 0, 0, 0, 0] st
    = (AList.update ''pedals-clutch'' (Num 0)
         (AList.update ''pedals-brake'' (Num 0) (AList.update ''pedals-gas'' (Num (1 / 2)) st)),
       [(''pedals-gas'', Num (1 / 2)), (''pedals-brake'', Num 0), (''pedals-clutch'', Num 0)])"
proof -
  have s1: "strict_neq (map_of st ''pedals-gas'') (Num (1 / 2))"
    using assms by (auto simp: strict_neq_def)
  have s2: "strict_neq (map_of (AList.update ''pedals-gas'' (Num (1 / 2)) st) ''pedals-brake'') (Num 0)"
    using assms by (auto simp: strict_neq_def update_conv')
  have s3: "strict_neq (map_of (AList.update ''pedals-brake'' (Num 0)
       (AList.update ''pedals-gas'' (Num (1 / 2)) st)) ''pedals-clutch'') (Num 0)"
    using assms by (auto simp: strict_neq_def update_conv')
  show ?thesis
    by (simp add: updateState_def upt_12 update_index_def elem_def pairs_of_def
        pedalToPercent_spec pedal_values s1 s2 s3)
qed

lemma wheelDpad_range: "0 \<le> wheelDpad v" "wheelDpad v \<le> 8"
  by (simp_all add: wheelDpad_def Let_def)

lemma shifterGear_range: "- 1 \<le> shifterGear v" "shifterGear v \<le> 6"
  by (simp_all add: shifterGear_def Let_def)

lemma spinner_of_range: "- 1 \<le> spinner_of v" "spinner_of v \<le> 1"
  by (simp_all add: spinner_of_def)

lemma int_between_of_int: "a \<le> n \<Longrightarrow> n \<le> b \<Longrightarrow> int_between a b (of_int n)"
  by (simp add: int_between_def)

lemma and_1_range: "0 \<le> (v::int) AND 1" "v AND 1 \<le> 1"
  unfolding and_one_eq by presburger+

lemma report_ok_nth:
  assumes "report_ok data" "i < 12"
  shows "0 \<le> data ! i" "data ! i \<le> 255" "elem data i = Some (data ! i)"
  using assms by (simp_all add: report_ok_def list_all_length elem_def)

lemma in_range_flag: "key \<in> set boolean_fields \<Longrightarrow> in_range key (flag v m)"
  using int_between_of_int [of 0 0 1] int_between_of_int [of 0 1 1]
  by (auto simp: in_range_def flag_def boolean_fields_def)

lemma in_range_and_1: "key \<in> set boolean_fields \<Longrightarrow> in_range key (Num (of_int (v AND 1)))"
  using int_between_of_int [OF and_1_range, of v]
  by (auto simp: in_range_def boolean_fields_def)

lemma in_range_dpad: "in_range ''wheel-dpad'' (Num (of_int (wheelDpad v)))"
  by (simp add: in_range_def int_between_of_int wheelDpad_range)

lemma in_range_gear: "in_range ''shifter-gear'' (Num (of_int (shifterGear v)))"
  by (simp add: in_range_def int_between_of_int shifterGear_range)

lemma in_range_spinner: "in_range ''wheel-spinner'' (Num (of_int (spinner_of v)))"
  by (simp add: in_range_def int_between_of_int spinner_of_range)

lemma in_range_turn:
  "elem data 4 = Some b4 \<Longrightarrow> elem data 5 = Some b5 \<Longrightarrow> in_range ''wheel-turn'' (wheelTurn data)"
  using wheelTurn_range [of data b4 b5] by (auto simp: in_range_def)

lemma in_range_pedal:
  assumes "0 \<le> b" "b \<le> 255" "key \<in> set [''pedals-gas'', ''pedals-brake'', ''pedals-clutch'']"
  shows "in_range key (Num (pedalToPercent b))"
  using assms pedal_spec_range [OF assms(1,2)]
  by (auto simp: in_range_def pedalToPercent_spec)

lemma pairs_of_ok:
  assumes "report_ok data"
  shows "state_ok (pairs_of i data)"
proof -
  note n = report_ok_nth [OF assms]
  have turn: "in_range ''wheel-turn'' (wheelTurn data)"
    using n(3) [of 4] n(3) [of 5] by (simp add: in_range_turn)
  have b: "''wheel-button_x'' \<in> set boolean_fields" "''wheel-button_square'' \<in> set boolean_fields"
    "''wheel-button_circle'' \<in> set boolean_fields" "''wheel-button_triangle'' \<in> set boolean_fields"
    "''wheel-shift_right'' \<in> set boolean_fields" "''wheel-shift_left'' \<in> set boolean_fields"
    "''wheel-button_r2'' \<in> set boolean_fields" "''wheel-button_l2'' \<in> set boolean_fields"
    "''wheel-button_share'' \<in> set boolean_fields" "''wheel-button_option'' \<in> set boolean_fields"
    "''wheel-button_r3'' \<in> set boolean_fields" "''wheel-button_l3'' \<in> set boolean_fields"
    "''wheel-button_plus'' \<in> set boolean_fields" "''wheel-button_minus'' \<in> set boolean_fields"
    "''wheel-button_spinner'' \<in> set boolean_fields" "''wheel-button_playstation'' \<in> set boolean_fields"
    by (simp_all add: boolean_fields_def)
  show ?thesis
    unfolding state_ok_def pairs_of_def Let_def
    using n(1) [of 6] n(2) [of 6] n(1) [of 7] n(2) [of 7] n(1) [of 8] n(2) [of 8]
    by (simp add: turn in_range_dpad in_range_gear in_range_spinner
        in_range_pedal in_range_flag in_range_and_1 b)
qed

lemma updateState_ok:
  assumes "report_ok data" "state_ok st"
  shows "state_ok (fst (updateState data prev st))" "state_ok (snd (updateState data prev st))"
proof -
  have "state_ok (fst (st, [])) \<and> state_ok (snd (st, []))"
    using assms(2) by (simp add: state_ok_def)
  then show "state_ok (fst (updateState data prev st))" "state_ok (snd (updateState data prev st))"
    unfolding updateState_def
    using fold_ok [of "[0..<length data]" data "(st, [])" prev] pairs_of_ok [OF assms(1)]
    by simp_all
qed

lemma state_on_data: "state (on_data inst data) = fst (updateState data (lastData inst) (state inst))"
  by (simp add: on_data_def Let_def split: prod.splits)

lemma foldl_on_data_ok:
  "list_all report_ok reports \<Longrightarrow> state_ok (state inst)
    \<Longrightarrow> state_ok (state (foldl on_data inst reports))"
proof (induction reports arbitrary: inst)
  case Nil
  then show ?case by simp
next
  case (Cons r reports)
  have "state_ok (state (on_data inst r))"
    using Cons.prems by (simp add: state_on_data updateState_ok)
  then show ?case
    using Cons.IH [of "on_data inst r"] Cons.prems(1) by simp
qed

lemma lastData_on_data: "lastData (on_data inst data) = data"
  by (simp add: on_data_def Let_def split: prod.splits)

lemma on_data_same:
  assumes "lastData inst = data"
  shows "state (on_data inst data) = state inst"
    and "emitted (on_data inst data)
       = emitted inst @ [(''all'', Snapshot (JSON_copy (state inst))), (''data'', Raw data)]"
  using assms by (simp_all add: on_data_def updateState_same)

lemma pedals_follow_on_data:
  assumes "pedals_follow inst" "length (lastData inst) = 12" "length data = 12"
  shows "pedals_follow (on_data inst data)"
proof -
  have e: "elem data j = elem (lastData inst) j \<longleftrightarrow> data ! j = lastData inst ! j" if "j < 12" for j
    using that assms(2,3) by (simp add: elem_def)
  have "map_of (fst (updateState data (lastData inst) (state inst))) ''pedals-gas'' = None
      \<or> map_of (fst (updateState data (lastData inst) (state inst))) ''pedals-gas''
          = Some (Num (pedalToPercent (data ! 6)))"
    using assms(1) e [of 6]
      updateState_single [of "''pedals-gas''" data 6 "Num (pedalToPercent (data ! 6))"
        "lastData inst" "state inst"] assms(3)
    by (auto simp: pedal_pairs pedals_follow_def)
  moreover have "map_of (fst (updateState data (lastData inst) (state inst))) ''pedals-brake'' = None
      \<or> map_of (fst (updateState data (lastData inst) (state inst))) ''pedals-brake''
          = Some (Num (pedalToPercent (data ! 7)))"
    using assms(1) e [of 7]
      updateState_single [of "''pedals-brake''" data 7 "Num (pedalToPercent (data ! 7))"
        "lastData inst" "state inst"] assms(3)
    by (auto simp: pedal_pairs pedals_follow_def)
  moreover have "map_of (fst (updateState data (lastData inst) (state inst))) ''pedals-clutch'' = None
      \<or> map_of (fst (updateState data (lastData inst) (state inst))) ''pedals-clutch''
          = Some (Num (pedalToPercent (data ! 8)))"
    using assms(1) e [of 8]
      updateState_single [of "''pedals-clutch''" data 8 "Num (pedalToPercent (data ! 8))"
        "lastData inst" "state inst"] assms(3)
    by (auto simp: pedal_pairs pedals_follow_def)
  ultimately show ?thesis
    by (simp add: pedals_follow_def state_on_data lastData_on_data)
qed

lemma pedals_follow_run:
  "pedals_follow inst \<Longrightarrow> length (lastData inst) = 12
    \<Longrightarrow> list_all (\<lambda>r. length r = 12) reports
    \<Longrightarrow> pedals_follow (foldl on_data inst reports)
        \<and> length (lastData (foldl on_data inst reports)) = 12"
proof (induction reports arbitrary: inst)
  case Nil
  then show ?case by simp
next
  case (Cons r reports)
  have "pedals_follow (on_data inst r)" "length (lastData (on_data inst r)) = 12"
    using Cons.prems by (simp_all add: pedals_follow_on_data lastData_on_data)
  then show ?case
    using Cons.IH [of "on_data inst r"] Cons.prems(3) by simp
qed

lemma pedals_follow_constructor:
  "pedals_follow (constructor opts platform)" "length (lastData (constructor opts platform)) = 12"
  by (simp_all add: pedals_follow_def constructor_def)

lemma after_zero_report:
  assumes "list_all (\<lambda>r. length r = 12) reports"
    and inst_def: "inst = foldl on_data (constructor opts platform)
      (reports @ [[0, 0, 0, 0, 0, 0, 0, 0, 0, 0, 0, 0]])"
  shows "lastData inst = [0, 0, 0, 0, 0, 0, 0, 0, 0, 0, 0, 0]"
    and "\<forall>key\<in>set [''pedals-gas'', ''pedals-brake'', ''pedals-clutch''].
             map_of (state inst) key = None \<or> map_of (state inst) key = Some (Num 1)"
proof -
  have all: "list_all (\<lambda>r. length r = 12) (reports @ [[0, 0, 0, 0, 0, 0, 0, 0, 0, 0, 0, 0]])"
    using assms(1) by simp
  show l: "lastData inst = [0, 0, 0, 0, 0, 0, 0, 0, 0, 0, 0, 0]"
    by (simp add: inst_def lastData_on_data)
  have "pedals_follow inst"
    unfolding inst_def
    using pedals_follow_run [OF pedals_follow_constructor all, of opts platform] by simp
  then show "\<forall>key\<in>set [''pedals-gas'', ''pedals-brake'', ''pedals-clutch''].
             map_of (state inst) key = None \<or> map_of (state inst) key = Some (Num 1)"
    unfolding pedals_follow_def l by (simp add: pedalToPercent_spec pedal_values)
qed

section \<open>Reports and events\<close>

text \<open>
  C1, as amended. When a report repeats the previous one byte for byte, \<open>updateState\<close>
  returns an empty set of changes and the stored state as it was, and the listener emits
  no per-field event and no \<open>'changes'\<close> event: the only events of that report are
  \<open>'all'\<close>, with a copy of the unchanged state, and \<open>'data'\<close>, with the raw report, which
  are emitted for every report.
\<close>

theorem C1_identical_reports:
  "(let inst1 = on_data inst0 report; inst2 = on_data inst1 report in
      updateState report (lastData inst1) (state inst1) = (state inst1, [])
      \<and> state inst2 = state inst1
      \<and> emitted inst2
          = emitted inst1
            @ [(''all'', Snapshot (JSON_copy (state inst1))), (''data'', Raw report)])"
  using on_data_same [OF lastData_on_data [of inst0 report]]
  by (simp add: Let_def lastData_on_data updateState_same)

text \<open>
  The claim as stated also asks for no dispatch at all. On a new instance, the second of
  two all-zero reports changes nothing in the state and still emits \<open>'all'\<close> and \<open>'data'\<close>.
\<close>

theorem C1_counterexample:
  "\<not> (snd (updateState [0, 0, 0, 0, 0, 0, 0, 0, 0, 0, 0, 0]
              (lastData (on_data (g ''linux'') [0, 0, 0, 0, 0, 0, 0, 0, 0, 0, 0, 0]))
              (state (on_data (g ''linux'') [0, 0, 0, 0, 0, 0, 0, 0, 0, 0, 0, 0]))) = []
      \<and> state (on_data (on_data (g ''linux'') [0, 0, 0, 0, 0, 0, 0, 0, 0, 0, 0, 0])
                 [0, 0, 0, 0, 0, 0, 0, 0, 0, 0, 0, 0])
          = state (on_data (g ''linux'') [0, 0, 0, 0, 0, 0, 0, 0, 0, 0, 0, 0])
      \<and> emitted (on_data (on_data (g ''linux'') [0, 0, 0, 0, 0, 0, 0, 0, 0, 0, 0, 0])
                   [0, 0, 0, 0, 0, 0, 0, 0, 0, 0, 0, 0])
          = emitted (on_data (g ''linux'') [0, 0, 0, 0, 0, 0, 0, 0, 0, 0, 0, 0]))"
  using on_data_same(2) [OF lastData_on_data, of "g ''linux''"
      "[0, 0, 0, 0, 0, 0, 0, 0, 0, 0, 0, 0]"]
  by simp

text \<open>
  C2, as amended. The turn decoder returns 0 for byte 4 = 0 and byte 5 = 0, 100 for
  byte 4 = 255 and byte 5 = 255, and 50 for byte 4 = 0 and byte 5 = 128.
\<close>

theorem C2_turn_vectors:
  "(elem data 4 = Some 0 \<and> elem data 5 = Some 0 \<longrightarrow> wheelTurn data = Num 0)
   \<and> (elem data 4 = Some 255 \<and> elem data 5 = Some 255 \<longrightarrow> wheelTurn data = Num 100)
   \<and> (elem data 4 = Some 0 \<and> elem data 5 = Some 128 \<longrightarrow> wheelTurn data = Num 50)"
  using wheelTurn_bytes [of data 0 0] wheelTurn_bytes [of data 255 255]
    wheelTurn_bytes [of data 0 128]
  by (simp add: wheelTurn_vectors)

theorem C2_witness:
  "wheelTurn [0, 0, 0, 0, 0, 0, 0, 0, 0, 0, 0, 0] = Num 0
   \<and> wheelTurn [0, 0, 0, 0, 255, 255, 0, 0, 0, 0, 0, 0] = Num 100
   \<and> wheelTurn [0, 0, 0, 0, 0, 128, 0, 0, 0, 0, 0, 0] = Num 50"
  using C2_turn_vectors [of "[0, 0, 0, 0, 0, 0, 0, 0, 0, 0, 0, 0]"]
    C2_turn_vectors [of "[0, 0, 0, 0, 255, 255, 0, 0, 0, 0, 0, 0]"]
    C2_turn_vectors [of "[0, 0, 0, 0, 0, 128, 0, 0, 0, 0, 0, 0]"]
  by (simp add: elem_def)

text \<open>
  The claim as stated expects a value within 0.01 of 50.20 for byte 4 = 0 and byte 5 = 128.
  The coarse term is \<open>(128/255) \<times> 99.609375 = 50\<close>, so the decoder returns 50.
\<close>

theorem C2_counterexample:
  "\<not> (wheelTurn [0, 0, 0, 0, 0, 0, 0, 0, 0, 0, 0, 0] = Num 0
      \<and> wheelTurn [0, 0, 0, 0, 255, 255, 0, 0, 0, 0, 0, 0] = Num 100
      \<and> close_to (wheelTurn [0, 0, 0, 0, 0, 128, 0, 0, 0, 0, 0, 0]) (502 / 10) (1 / 100))"
proof -
  have "wheelTurn [0, 0, 0, 0, 0, 128, 0, 0, 0, 0, 0, 0] = Num 50"
    using wheelTurn_bytes [of "[0, 0, 0, 0, 0, 128, 0, 0, 0, 0, 0, 0]" 0 128]
    by (simp add: elem_def wheelTurn_vectors)
  then show ?thesis by (simp add: close_to_def)
qed

text \<open>
  C4, as amended. For every report of 12 bytes, each from 0 to 255, the decoded turn is
  the double nearest to \<open>clamp(round(coarse + fine, 2 decimals), 0, 100)\<close> with
  \<open>fine = (byte4/255) \<times> (100/256)\<close> and \<open>coarse = (byte5/255) \<times> (100 - 100/256)\<close>, except
  at the pairs (byte 4, byte 5) = (153, 81), (51, 139) and (51, 155), where it is the
  double nearest to that value less 0.01. The fine term lies between 0 and 0.390625 and
  the coarse term between 0 and 99.609375, in ordinary arithmetic and as the program
  computes them, the ends being reached at the bytes 0 and 255. Bytes 4 and 5 are decoded
  together: when either differs from the previous report, \<open>updateState\<close> stores the turn
  computed from both current bytes, and when neither does, the stored turn is left as it
  was.
\<close>

theorem C4_turn_formula:
  "report_ok data \<longrightarrow>
     wheelTurn data
       = Num (fl (turn_spec (data ! 4) (data ! 5)
                  - (if (data ! 4, data ! 5) \<in> set low_ties then 1 / 100 else 0)))
     \<and> 0 \<le> fine_spec (data ! 4) \<and> fine_spec (data ! 4) \<le> 25 / 64
     \<and> 0 \<le> coarse_spec (data ! 5) \<and> coarse_spec (data ! 5) \<le> 6375 / 64
     \<and> fine_spec 0 = 0 \<and> fine_spec 255 = 25 / 64
     \<and> coarse_spec 0 = 0 \<and> coarse_spec 255 = 6375 / 64
     \<and> 0 \<le> fmul (fdiv (of_int (data ! 4)) 255) (fdiv 100 256)
     \<and> fmul (fdiv (of_int (data ! 4)) 255) (fdiv 100 256) \<le> 25 / 64
     \<and> 0 \<le> fmul (fdiv (of_int (data ! 5)) 255) (fsub 100 (fdiv 100 256))
     \<and> fmul (fdiv (of_int (data ! 5)) 255) (fsub 100 (fdiv 100 256)) \<le> 6375 / 64
     \<and> (elem data 4 \<noteq> elem prev 4 \<or> elem data 5 \<noteq> elem prev 5 \<longrightarrow>
          map_of (fst (updateState data prev st)) ''wheel-turn'' = Some (wheelTurn data))
     \<and> (elem data 4 = elem prev 4 \<and> elem data 5 = elem prev 5 \<longrightarrow>
          map_of (fst (updateState data prev st)) ''wheel-turn'' = map_of st ''wheel-turn'')"
proof
  assume ok: "report_ok data"
  note n = report_ok_nth [OF ok]
  have len: "length data = 12" using ok by (simp add: report_ok_def)
  have turn: "wheelTurn data
       = Num (fl (turn_spec (data ! 4) (data ! 5)
                  - (if (data ! 4, data ! 5) \<in> set low_ties then 1 / 100 else 0)))"
    using n(1,2) [of 4] n(1,2) [of 5] n(3) [of 4] n(3) [of 5]
    by (intro wheelTurn_formula) simp_all
  have fine: "0 \<le> fmul (fdiv (of_int (data ! 4)) 255) (fdiv 100 256)"
    "fmul (fdiv (of_int (data ! 4)) 255) (fdiv 100 256) \<le> 25 / 64"
    using n(1,2) [of 4] by (simp_all only: wheelFine_range)
  have coarse: "0 \<le> fmul (fdiv (of_int (data ! 5)) 255) (fsub 100 (fdiv 100 256))"
    "fmul (fdiv (of_int (data ! 5)) 255) (fsub 100 (fdiv 100 256)) \<le> 6375 / 64"
    using n(1,2) [of 5] by (simp_all only: wheelCourse_range)
  have stored: "map_of (fst (updateState data prev st)) ''wheel-turn'' =
     (if elem data 4 \<noteq> elem prev 4 \<or> elem data 5 \<noteq> elem prev 5
      then Some (wheelTurn data) else map_of st ''wheel-turn'')"
    using len by (rule updateState_turn)
  show "wheelTurn data
       = Num (fl (turn_spec (data ! 4) (data ! 5)
                  - (if (data ! 4, data ! 5) \<in> set low_ties then 1 / 100 else 0)))
     \<and> 0 \<le> fine_spec (data ! 4) \<and> fine_spec (data ! 4) \<le> 25 / 64
     \<and> 0 \<le> coarse_spec (data ! 5) \<and> coarse_spec (data ! 5) \<le> 6375 / 64
     \<and> fine_spec 0 = 0 \<and> fine_spec 255 = 25 / 64
     \<and> coarse_spec 0 = 0 \<and> coarse_spec 255 = 6375 / 64
     \<and> 0 \<le> fmul (fdiv (of_int (data ! 4)) 255) (fdiv 100 256)
     \<and> fmul (fdiv (of_int (data ! 4)) 255) (fdiv 100 256) \<le> 25 / 64
     \<and> 0 \<le> fmul (fdiv (of_int (data ! 5)) 255) (fsub 100 (fdiv 100 256))
     \<and> fmul (fdiv (of_int (data ! 5)) 255) (fsub 100 (fdiv 100 256)) \<le> 6375 / 64
     \<and> (elem data 4 \<noteq> elem prev 4 \<or> elem data 5 \<noteq> elem prev 5 \<longrightarrow>
          map_of (fst (updateState data prev st)) ''wheel-turn'' = Some (wheelTurn data))
     \<and> (elem data 4 = elem prev 4 \<and> elem data 5 = elem prev 5 \<longrightarrow>
          map_of (fst (updateState data prev st)) ''wheel-turn'' = map_of st ''wheel-turn'')"
    using turn fine coarse spec_ranges [OF n(1,2), of 4] spec_ranges [OF n(1,2), of 5]
    by (simp only: stored spec_ends) simp
qed

theorem C4_witness:
  "report_ok [0, 0, 0, 0, 51, 139, 0, 0, 0, 0, 0, 0]
   \<and> wheelTurn [0, 0, 0, 0, 51, 139, 0, 0, 0, 0, 0, 0] = Num (fl (5437 / 100))
   \<and> map_of (fst (updateState [0, 0, 0, 0, 51, 139, 0, 0, 0, 0, 0, 0]
                  [0, 0, 0, 0, 0, 0, 0, 0, 0, 0, 0, 0] [])) ''wheel-turn''
       = Some (Num (fl (5437 / 100)))
   \<and> report_ok [0, 0, 0, 0, 0, 128, 0, 0, 0, 0, 0, 0]
   \<and> wheelTurn [0, 0, 0, 0, 0, 128, 0, 0, 0, 0, 0, 0] = Num 50"
proof -
  have ok: "report_ok [0, 0, 0, 0, 51, 139, 0, 0, 0, 0, 0, 0]"
    "report_ok [0, 0, 0, 0, 0, 128, 0, 0, 0, 0, 0, 0]"
    by (simp_all add: report_ok_def)
  show ?thesis
    using ok C4_turn_formula [of "[0, 0, 0, 0, 51, 139, 0, 0, 0, 0, 0, 0]"
        "[0, 0, 0, 0, 0, 0, 0, 0, 0, 0, 0, 0]" "[]"]
      C4_turn_formula [of "[0, 0, 0, 0, 0, 128, 0, 0, 0, 0, 0, 0]"
        "[0, 0, 0, 0, 0, 0, 0, 0, 0, 0, 0, 0]" "[]"]
    by (simp add: elem_def turn_spec_values low_ties_def)
qed

text \<open>
  The claim as stated gives the formula's value at every pair of bytes. At byte 4 = 51 and
  byte 5 = 139 the formula is \<open>round(54.375, 2 decimals) = 54.38\<close>; the program's sum
  times 100 is a double below 5437.5, and the decoder returns the double nearest to
  54.37: not the formula's value, not the double nearest to it, and more than 0.005 away.
\<close>

theorem C4_counterexample:
  "\<not> (wheelTurn [0, 0, 0, 0, 51, 139, 0, 0, 0, 0, 0, 0] = Num (turn_spec 51 139)
      \<or> wheelTurn [0, 0, 0, 0, 51, 139, 0, 0, 0, 0, 0, 0] = Num (fl (turn_spec 51 139))
      \<or> close_to (wheelTurn [0, 0, 0, 0, 51, 139, 0, 0, 0, 0, 0, 0]) (turn_spec 51 139)
           (1 / 200))"
  by code_simp

text \<open>
  C6. Every pedal decodes to \<open>round(|byte - 255| / 255, 2 decimals)\<close>: gas from index 6,
  brake from index 7 and clutch from index 8, stored whenever that byte differs from the
  previous report. When the previous report was all zero bytes, after any earlier reports
  of 12 bytes, and the report \<open>[0,0,0,0,0,0,128,255,255,0,0,0]\<close> arrives, the set of
  changes is exactly gas 0.5, brake 0, clutch 0; the listener emits the three field
  events, \<open>'changes'\<close>, then \<open>'all'\<close> with a copy of the whole state and \<open>'data'\<close> with the
  raw report.
\<close>

theorem C6_pedals:
  "(report_ok data \<longrightarrow>
      pedalToPercent (data ! 6) = pedal_spec (data ! 6)
      \<and> (elem data 6 \<noteq> elem prev 6 \<longrightarrow>
           map_of (fst (updateState data prev st)) ''pedals-gas''
             = Some (Num (pedal_spec (data ! 6))))
      \<and> (elem data 7 \<noteq> elem prev 7 \<longrightarrow>
           map_of (fst (updateState data prev st)) ''pedals-brake''
             = Some (Num (pedal_spec (data ! 7))))
      \<and> (elem data 8 \<noteq> elem prev 8 \<longrightarrow>
           map_of (fst (updateState data prev st)) ''pedals-clutch''
             = Some (Num (pedal_spec (data ! 8)))))
   \<and> (list_all (\<lambda>r. length r = 12) reports \<longrightarrow>
       (let inst = foldl on_data (constructor opts platform)
                     (reports @ [[0, 0, 0, 0, 0, 0, 0, 0, 0, 0, 0, 0]]);
            new = [0, 0, 0, 0, 0, 0, 128, 255, 255, 0, 0, 0];
            inst' = on_data inst new;
            changes = [(''pedals-gas'', Num (1 / 2)), (''pedals-brake'', Num 0),
                       (''pedals-clutch'', Num 0)]
        in snd (updateState new (lastData inst) (state inst)) = changes
           \<and> emitted inst'
               = emitted inst
                 @ [(''pedals-gas'', Value (Num (1 / 2))), (''pedals-brake'', Value (Num 0)),
                    (''pedals-clutch'', Value (Num 0)), (''changes'', Changes changes),
                    (''all'', Snapshot (JSON_copy (state inst'))), (''data'', Raw new)]
           \<and> state inst'
               = AList.update ''pedals-clutch'' (Num 0)
                   (AList.update ''pedals-brake'' (Num 0)
                     (AList.update ''pedals-gas'' (Num (1 / 2)) (state inst)))))"
proof (intro conjI impI)
  assume ok: "report_ok data"
  then have len: "length data = 12" by (simp add: report_ok_def)
  show "pedalToPercent (data ! 6) = pedal_spec (data ! 6)"
    by (rule pedalToPercent_spec)
  show "map_of (fst (updateState data prev st)) ''pedals-gas'' = Some (Num (pedal_spec (data ! 6)))"
    if "elem data 6 \<noteq> elem prev 6"
    using that updateState_single [of "''pedals-gas''" data 6 _ prev st] len
    by (simp add: pedal_pairs pedalToPercent_spec)
  show "map_of (fst (updateState data prev st)) ''pedals-brake'' = Some (Num (pedal_spec (data ! 7)))"
    if "elem data 7 \<noteq> elem prev 7"
    using that updateState_single [of "''pedals-brake''" data 7 _ prev st] len
    by (simp add: pedal_pairs pedalToPercent_spec)
  show "map_of (fst (updateState data prev st)) ''pedals-clutch'' = Some (Num (pedal_spec (data ! 8)))"
    if "elem data 8 \<noteq> elem prev 8"
    using that updateState_single [of "''pedals-clutch''" data 8 _ prev st] len
    by (simp add: pedal_pairs pedalToPercent_spec)
next
  assume reports: "list_all (\<lambda>r. length r = 12) reports"
  define inst where "inst = foldl on_data (constructor opts platform)
                     (reports @ [[0, 0, 0, 0, 0, 0, 0, 0, 0, 0, 0, 0]])"
  note z = after_zero_report [OF reports inst_def]
  have u: "updateState [0, 0, 0, 0, 0, 0, 128, 255, 255, 0, 0, 0] (lastData inst) (state inst)
    = (AList.update ''pedals-clutch'' (Num 0)
         (AList.update ''pedals-brake'' (Num 0)
           (AList.update ''pedals-gas'' (Num (1 / 2)) (state inst))),
       [(''pedals-gas'', Num (1 / 2)), (''pedals-brake'', Num 0), (''pedals-clutch'', Num 0)])"
    unfolding z(1) using z(2) by (rule scenario_update)
  show "let inst = foldl on_data (constructor opts platform)
                     (reports @ [[0, 0, 0, 0, 0, 0, 0, 0, 0, 0, 0, 0]]);
            new = [0, 0, 0, 0, 0, 0, 128, 255, 255, 0, 0, 0];
            inst' = on_data inst new;
            changes = [(''pedals-gas'', Num (1 / 2)), (''pedals-brake'', Num 0),
                       (''pedals-clutch'', Num 0)]
        in snd (updateState new (lastData inst) (state inst)) = changes
           \<and> emitted inst'
               = emitted inst
                 @ [(''pedals-gas'', Value (Num (1 / 2))), (''pedals-brake'', Value (Num 0)),
                    (''pedals-clutch'', Value (Num 0)), (''changes'', Changes changes),
                    (''all'', Snapshot (JSON_copy (state inst'))), (''data'', Raw new)]
           \<and> state inst'
               = AList.update ''pedals-clutch'' (Num 0)
                   (AList.update ''pedals-brake'' (Num 0)
                     (AList.update ''pedals-gas'' (Num (1 / 2)) (state inst)))"
    unfolding inst_def [symmetric] by (simp add: Let_def on_data_def u)
qed

theorem C6_witness:
  "report_ok [0, 0, 0, 0, 0, 0, 128, 255, 255, 0, 0, 0]
   \<and> map_of (fst (updateState [0, 0, 0, 0, 0, 0, 128, 255, 255, 0, 0, 0]
                  [0, 0, 0, 0, 0, 0, 0, 0, 0, 0, 0, 0] [])) ''pedals-gas'' = Some (Num (1 / 2))
   \<and> list_all (\<lambda>r. length r = 12) ([] :: int list list)
   \<and> emitted (on_data (on_data (g ''linux'') [0, 0, 0, 0, 0, 0, 0, 0, 0, 0, 0, 0])
                [0, 0, 0, 0, 0, 0, 128, 255, 255, 0, 0, 0])
       = [(''all'', Snapshot []), (''data'', Raw [0, 0, 0, 0, 0, 0, 0, 0, 0, 0, 0, 0]),
          (''pedals-gas'', Value (Num (1 / 2))), (''pedals-brake'', Value (Num 0)),
          (''pedals-clutch'', Value (Num 0)),
          (''changes'', Changes [(''pedals-gas'', Num (1 / 2)), (''pedals-brake'', Num 0),
                                 (''pedals-clutch'', Num 0)]),
          (''all'', Snapshot [(''pedals-gas'', JNumber (1 / 2)), (''pedals-brake'', JNumber 0),
                              (''pedals-clutch'', JNumber 0)]),
          (''data'', Raw [0, 0, 0, 0, 0, 0, 128, 255, 255, 0, 0, 0])]"
proof -
  define inst where "inst = on_data (g ''linux'') [0, 0, 0, 0, 0, 0, 0, 0, 0, 0, 0, 0]"
  have g: "lastData (g ''linux'') = [0, 0, 0, 0, 0, 0, 0, 0, 0, 0, 0, 0]"
    "state (g ''linux'') = []" "emitted (g ''linux'') = []"
    by (simp_all add: g_def constructor_def zeros_12)
  have inst: "state inst = []"
    "emitted inst = [(''all'', Snapshot []), (''data'', Raw [0, 0, 0, 0, 0, 0, 0, 0, 0, 0, 0, 0])]"
    unfolding inst_def using on_data_same [OF g(1)]
    by (simp_all add: g JSON_copy_def)
  have ok: "report_ok [0, 0, 0, 0, 0, 0, 128, 255, 255, 0, 0, 0]"
    by (simp add: report_ok_def)
  show ?thesis
    using ok inst
      C6_pedals [of "[0, 0, 0, 0, 0, 0, 128, 255, 255, 0, 0, 0]"
        "[0, 0, 0, 0, 0, 0, 0, 0, 0, 0, 0, 0]" "[]" "[]"
        "\<lparr>autocenter = False, debug = True, range' = 900\<rparr>" "''linux''"]
    unfolding inst_def [symmetric] g_def [symmetric]
    by (simp add: Let_def elem_def pedal_values JSON_copy_def inst_def [symmetric] g_def [symmetric])
qed

text \<open>
  C7. For every report of 12 bytes, each from 0 to 255, \<open>updateState\<close> keeps every stored
  field and every reported change inside its documented range: dpad an integer from 0 to
  8, gear an integer from \<open>-1\<close> to 6, turn from 0 to 100, each pedal from 0 to 1, spinner
  \<open>-1\<close>, 0 or 1, and every button and shifter flag 0 or 1. The state of a new instance is
  in range, so it is in range after every sequence of such reports.
\<close>

theorem C7_field_ranges:
  "(report_ok data \<and> state_ok st \<longrightarrow>
      state_ok (fst (updateState data prev st)) \<and> state_ok (snd (updateState data prev st)))
   \<and> (list_all report_ok reports \<longrightarrow>
        state_ok (state (foldl on_data (constructor opts platform) reports)))"
proof (intro conjI impI)
  assume "report_ok data \<and> state_ok st"
  then show "state_ok (fst (updateState data prev st))" "state_ok (snd (updateState data prev st))"
    by (simp_all add: updateState_ok)
next
  assume "list_all report_ok reports"
  moreover have "state_ok (state (constructor opts platform))"
    by (simp add: constructor_def state_ok_def)
  ultimately show "state_ok (state (foldl on_data (constructor opts platform) reports))"
    by (rule foldl_on_data_ok)
qed

theorem C7_witness:
  "report_ok [255, 255, 255, 255, 255, 255, 255, 255, 255, 255, 255, 255]
   \<and> state_ok []
   \<and> state_ok (fst (updateState [255, 255, 255, 255, 255, 255, 255, 255, 255, 255, 255, 255]
                    [0, 0, 0, 0, 0, 0, 0, 0, 0, 0, 0, 0] []))
   \<and> list_all report_ok [[0, 0, 130, 0, 0, 0, 128, 255, 255, 0, 0, 0],
                          [255, 255, 255, 255, 255, 255, 255, 255, 255, 255, 255, 255]]
   \<and> state_ok (state (foldl on_data (g ''linux'')
        [[0, 0, 130, 0, 0, 0, 128, 255, 255, 0, 0, 0],
         [255, 255, 255, 255, 255, 255, 255, 255, 255, 255, 255, 255]]))"
proof -
  have ok: "report_ok [255, 255, 255, 255, 255, 255, 255, 255, 255, 255, 255, 255]"
    "report_ok [0, 0, 130, 0, 0, 0, 128, 255, 255, 0, 0, 0]" "state_ok []"
    by (simp_all add: report_ok_def state_ok_def)
  show ?thesis
    using ok
      C7_field_ranges [of "[255, 255, 255, 255, 255, 255, 255, 255, 255, 255, 255, 255]" "[]"
        "[0, 0, 0, 0, 0, 0, 0, 0, 0, 0, 0, 0]"
        "[[0, 0, 130, 0, 0, 0, 128, 255, 255, 0, 0, 0],
          [255, 255, 255, 255, 255, 255, 255, 255, 255, 255, 255, 255]]"
        "\<lparr>autocenter = False, debug = True, range' = 900\<rparr>" "''linux''"]
    unfolding g_def by simp
qed

section \<open>Commands to the wheel\<close>

lemma relayOS_device:
  "device inst = Some written \<Longrightarrow>
   relayOS inst frame = inst\<lparr>device := Some (written @ [(if prependWrite inst then [0] else []) @ frame])\<rparr>"
  by (simp add: relayOS_def relay_def)

text \<open>
  C8. With a device open, \<open>leds\<close> writes nothing when its value equals \<open>lastLedValue\<close>;
  otherwise it writes the frame \<open>[0xf8, 0x12, mask, 0, 0, 0, 1]\<close> (after the leading zero
  byte on win32), where \<open>mask\<close> is the value clamped to 0..31, and remembers \<open>mask\<close>. So
  two calls with the value 7 in a row, the value not being 7 already, write exactly one frame.
\<close>

theorem C8_led_mask:
  "device inst = Some written \<longrightarrow>
     (lastLedValue inst = v \<longrightarrow> device (leds inst v) = Some written)
     \<and> (lastLedValue inst \<noteq> v \<longrightarrow>
          device (leds inst v)
            = Some (written @ [(if prependWrite inst then [0] else [])
                                @ [0xf8, 0x12, min (max v 0) 31, 0x00, 0x00, 0x00, 0x01]])
          \<and> lastLedValue (leds inst v) = min (max v 0) 31
          \<and> 0 \<le> min (max v 0) 31 \<and> min (max v 0) 31 \<le> 31)
     \<and> (lastLedValue inst \<noteq> 7 \<longrightarrow>
          device (leds (leds inst 7) 7)
            = Some (written @ [(if prependWrite inst then [0] else [])
                                @ [0xf8, 0x12, 7, 0x00, 0x00, 0x00, 0x01]]))"
  by (simp add: leds_def relayOS_device Let_def)

theorem C8_witness:
  "device ((constructor \<lparr>autocenter = False, debug = False, range' = 900\<rparr> ''linux'')\<lparr>device := Some []\<rparr>) = Some []
   \<and> device (leds (leds ((constructor \<lparr>autocenter = False, debug = False, range' = 900\<rparr> ''linux'')\<lparr>device := Some []\<rparr>) 7) 7)
       = Some [[0xf8, 0x12, 7, 0x00, 0x00, 0x00, 0x01]]
   \<and> device (leds ((constructor \<lparr>autocenter = False, debug = False, range' = 900\<rparr> ''linux'')\<lparr>device := Some []\<rparr>) 40)
       = Some [[0xf8, 0x12, 31, 0x00, 0x00, 0x00, 0x01]]"
  using C8_led_mask [of "(constructor \<lparr>autocenter = False, debug = False, range' = 900\<rparr> ''linux'')\<lparr>device := Some []\<rparr>" "[]" 40]
   C8_led_mask [of "(constructor \<lparr>autocenter = False, debug = False, range' = 900\<rparr> ''linux'')\<lparr>device := Some []\<rparr>" "[]" 7]
  by (simp add: constructor_def)

lemma low_high_bytes:
  assumes "0 \<le> c" "c < 65536"
  shows "(c AND 0x00ff) + 256 * drop_bit 8 (c AND 0xff00) = (c::int)"
    and "0 \<le> c AND 0x00ff" "c AND 0x00ff \<le> 255"
    and "0 \<le> drop_bit 8 (c AND 0xff00)" "drop_bit 8 (c AND 0xff00) \<le> 255"
proof -
  have m: "(255::int) = mask 8" by (simp add: mask_eq_exp_minus_1)
  have lo: "c AND 0x00ff = c mod 256"
    unfolding m by (simp add: take_bit_eq_mod flip: take_bit_eq_mask)
  have "drop_bit 8 (c AND 0xff00) = drop_bit 8 c AND drop_bit 8 (0xff00::int)"
    by (simp add: bit_eq_iff bit_simps)
  also have "drop_bit 8 (0xff00::int) = mask 8"
    by (simp add: drop_bit_eq_div mask_eq_exp_minus_1)
  also have "drop_bit 8 c AND mask 8 = (c div 256) mod 256"
    by (simp add: take_bit_eq_mod drop_bit_eq_div flip: take_bit_eq_mask)
  also have "\<dots> = c div 256" using assms by simp
  finally have hi: "drop_bit 8 (c AND 0xff00) = c div 256" .
  show "(c AND 0x00ff) + 256 * drop_bit 8 (c AND 0xff00) = c"
    unfolding lo hi by simp
  show "0 \<le> c AND 0x00ff" "c AND 0x00ff \<le> 255" unfolding lo by simp_all
  show "0 \<le> drop_bit 8 (c AND 0xff00)" "drop_bit 8 (c AND 0xff00) \<le> 255"
    unfolding hi using assms by simp_all
qed

text \<open>
  C9. The constructor clamps the requested range to 40..900 and \<open>setRange\<close> writes
  \<open>[0xf8, 0x81, low, high, 0, 0, 0]\<close> (after the leading zero byte on win32) with
  \<open>low = range & 0x00ff\<close> and \<open>high = (range & 0xff00) >> 8\<close>, which are bytes with
  \<open>low + 256 \<times> high = range\<close>. A request of 2000 writes what a request of 900 writes
  (\<open>0x84, 0x03\<close>), and a request of 5 what a request of 40 writes (\<open>0x28, 0x00\<close>).
\<close>

theorem C9_range_frame:
  "(let c = min (max (range' opts) 40) 900;
        low = c AND 0x00ff; high = drop_bit 8 (c AND 0xff00) in
      device (setRange ((constructor opts platform)\<lparr>device := Some written\<rparr>))
        = Some (written @ [(if platform = ''win32'' then [0] else [])
                            @ [0xf8, 0x81, low, high, 0x00, 0x00, 0x00]])
      \<and> 40 \<le> c \<and> c \<le> 900 \<and> low + 256 * high = c
      \<and> 0 \<le> low \<and> low \<le> 255 \<and> 0 \<le> high \<and> high \<le> 255)
   \<and> setRange ((constructor (opts\<lparr>range' := 2000\<rparr>) platform)\<lparr>device := Some written\<rparr>)
      = setRange ((constructor (opts\<lparr>range' := 900\<rparr>) platform)\<lparr>device := Some written\<rparr>)
   \<and> setRange ((constructor (opts\<lparr>range' := 5\<rparr>) platform)\<lparr>device := Some written\<rparr>)
      = setRange ((constructor (opts\<lparr>range' := 40\<rparr>) platform)\<lparr>device := Some written\<rparr>)
   \<and> device (setRange ((constructor (opts\<lparr>range' := 2000\<rparr>) platform)\<lparr>device := Some written\<rparr>))
      = Some (written @ [(if platform = ''win32'' then [0] else [])
                          @ [0xf8, 0x81, 0x84, 0x03, 0x00, 0x00, 0x00]])
   \<and> device (setRange ((constructor (opts\<lparr>range' := 5\<rparr>) platform)\<lparr>device := Some written\<rparr>))
      = Some (written @ [(if platform = ''win32'' then [0] else [])
                          @ [0xf8, 0x81, 0x28, 0x00, 0x00, 0x00, 0x00]])"
proof -
  define c where "c = min (max (range' opts) 40) 900"
  have c: "0 \<le> c" "c < 65536" "40 \<le> c" "c \<le> 900" by (simp_all add: c_def)
  note lh = low_high_bytes [OF c(1,2)]
  have "device (setRange ((constructor opts platform)\<lparr>device := Some written\<rparr>))
        = Some (written @ [(if platform = ''win32'' then [0] else [])
                            @ [0xf8, 0x81, c AND 0x00ff, drop_bit 8 (c AND 0xff00), 0x00, 0x00, 0x00]])"
    by (simp add: setRange_def relayOS_device constructor_def c_def Let_def)
  moreover have "setRange ((constructor (opts\<lparr>range' := 2000\<rparr>) platform)\<lparr>device := Some written\<rparr>)
      = setRange ((constructor (opts\<lparr>range' := 900\<rparr>) platform)\<lparr>device := Some written\<rparr>)"
    by (simp add: constructor_def setRange_def)
  moreover have "setRange ((constructor (opts\<lparr>range' := 5\<rparr>) platform)\<lparr>device := Some written\<rparr>)
      = setRange ((constructor (opts\<lparr>range' := 40\<rparr>) platform)\<lparr>device := Some written\<rparr>)"
    by (simp add: constructor_def setRange_def)
  moreover have "device (setRange ((constructor (opts\<lparr>range' := 2000\<rparr>) platform)\<lparr>device := Some written\<rparr>))
      = Some (written @ [(if platform = ''win32'' then [0] else [])
                          @ [0xf8, 0x81, 0x84, 0x03, 0x00, 0x00, 0x00]])"
    by (simp add: setRange_def relayOS_device constructor_def Let_def)
  moreover have "device (setRange ((constructor (opts\<lparr>range' := 5\<rparr>) platform)\<lparr>device := Some written\<rparr>))
      = Some (written @ [(if platform = ''win32'' then [0] else [])
                          @ [0xf8, 0x81, 0x28, 0x00, 0x00, 0x00, 0x00]])"
    by (simp add: setRange_def relayOS_device constructor_def Let_def)
  ultimately show ?thesis
    using c lh unfolding Let_def c_def [symmetric] by simp
qed

end
